theory Spec2Isabelle
  imports Main "HOL-Library.Word"
begin

section \<open>The vSphere source adapter (pkg/vsphere/adapter.go)\<close>

text \<open>
  The adapter polls vCenter for events, converts every event into a CloudEvent, sends
  it to the sink and tracks its position in the event stream with a checkpoint that is
  staged in a key-value store after every batch and saved on a timer.
\<close>

subsection \<open>Values of the Go standard library\<close>

text \<open>
  A \<open>time.Time\<close> is modelled by the number of nanoseconds since the zero time of Go
  (January 1, year 1, 00:00:00 UTC), an unbounded integer. \<open>IsZero\<close> holds of the zero
  time only, \<open>Unix\<close> is the number of whole seconds since January 1, 1970 (rounded
  down), and \<open>Add\<close> moves the instant by a duration.
  A \<open>time.Duration\<close> is an \<open>int64\<close> count of nanoseconds; its arithmetic wraps.
\<close>

type_synonym Time = int

type_synonym Duration = "64 word"

definition IsZero :: "Time \<Rightarrow> bool" where
  "IsZero t = (t = 0)"

definition unixToInternal :: int where
  "unixToInternal = (1969 * 365 + 1969 div 4 - 1969 div 100 + 1969 div 400) * 86400"

definition Unix :: "Time \<Rightarrow> int" where
  "Unix t = t div 1000000000 - unixToInternal"

definition Add :: "Time \<Rightarrow> Duration \<Rightarrow> Time" where
  "Add t d = t + sint d"

definition Second :: Duration where
  "Second = 1000000000"

subsection \<open>Errors and log lines\<close>

text \<open>
  A Go \<open>error\<close> is \<open>error option\<close>, \<open>None\<close> for \<open>nil\<close>. \<open>Wrap m e\<close> is
  \<open>fmt.Errorf(m + ": %w", e)\<close>; \<open>Canceled\<close> and \<open>DeadlineExceeded\<close> are the two values
  of \<open>ctx.Err()\<close> once the context is done; \<open>ResultACK\<close> and \<open>ResultNACK\<close> are the
  results of the CloudEvents SDK.
\<close>

datatype error =
  Canceled | DeadlineExceeded | ResultACK | ResultNACK | Err string | Wrap string error

datatype level = Debug | Info | Warn | Error

type_synonym logline = "level \<times> string"

subsection \<open>The checkpoint\<close>

text \<open>
  The fields of the \<open>checkpoint\<close> struct, as \<open>readEvents\<close> fills them. The zero value
  is what \<open>var cp checkpoint\<close> declares.
\<close>

record checkpoint =
  VCenter :: string
  LastEventKey :: "32 word"
  LastEventType :: string
  LastEventKeyTimestamp :: Time
  CreatedTimestamp :: Time

definition zero_checkpoint :: checkpoint where
  "zero_checkpoint =
     \<lparr>VCenter = [], LastEventKey = 0, LastEventType = [],
      LastEventKeyTimestamp = 0, CreatedTimestamp = 0\<rparr>"

subsection \<open>getBeginFromCheckpoint\<close>

text \<open>
  The begin time of the event stream together with the lines the function logs. The
  comparison of the replay limit with the checkpoint is made on whole Unix seconds, as
  in the source (\<open>maxTime.Unix() > cpTime.Unix()\<close>).
\<close>

definition data_loss_warning :: string where
  "data_loss_warning =
     ''potential data loss: last event timestamp in checkpoint is older than configured maximum''"

definition getBeginFromCheckpoint ::
  "Time \<Rightarrow> checkpoint \<Rightarrow> Duration \<Rightarrow> Time \<times> logline list" where
  "getBeginFromCheckpoint vcTime cp maxAge =
     (let begin = vcTime;
          cpTime = LastEventKeyTimestamp cp
      in if \<not> IsZero cpTime then
           (let maxTime = Add begin (maxAge * (- 1))
            in if Unix maxTime > Unix cpTime then
                 (maxTime,
                  [(Info, ''found existing checkpoint''),
                   (Warn, data_loss_warning),
                   (Warn, ''setting begin of event stream'')])
               else
                 (cpTime,
                  [(Info, ''found existing checkpoint''),
                   (Info, ''setting begin of event stream'')]))
         else
           (begin,
            [(Info, ''no valid checkpoint found''),
             (Info, ''setting begin of event stream'')]))"

subsection \<open>Events of vCenter and CloudEvents\<close>

text \<open>
  A vCenter event (\<open>types.BaseEvent\<close>) as the adapter reads it: the \<open>int32\<close> key and
  the creation time of \<open>GetEvent()\<close>, and the payload that \<open>SetData\<close> encodes.
\<close>

record EventDetails =
  Class :: string
  Type :: string

record BaseEvent =
  Key :: "32 word"
  CreatedTime :: Time
  Details :: EventDetails
  Body :: string

text \<open>
  Modelled from the spec: \<open>getEventDetails\<close> is declared in a file of the package that
  is not among the sources; the spec says that an event has a semantic type and a
  broader class, which the model keeps with the event.
\<close>

definition getEventDetails :: "BaseEvent \<Rightarrow> EventDetails" where
  "getEventDetails be = Details be"

record CloudEvent =
  ceSource :: string
  ceID :: string
  ceType :: string
  ceTime :: Time
  ceExtensions :: "string \<rightharpoonup> string"
  ceDataContentType :: string
  ceData :: string

definition ceVSphereAPIKey :: string where
  "ceVSphereAPIKey = ''vsphereapiversion''"

definition ceVSphereEventClass :: string where
  "ceVSphereEventClass = ''eventclass''"

definition maxEventsBatch :: nat where
  "maxEventsBatch = 100"

text \<open>\<open>fmt.Sprintf("%d", n)\<close> and \<open>fmt.Sprintf(eventTypeFormat, s)\<close>.\<close>

definition digit :: "nat \<Rightarrow> char" where
  "digit d = ''0123456789'' ! d"

fun show_nat :: "nat \<Rightarrow> string" where
  "show_nat n = (if n < 10 then [digit n] else show_nat (n div 10) @ [digit (n mod 10)])"

declare show_nat.simps [simp del]

definition show_int :: "int \<Rightarrow> string" where
  "show_int i = (if i < 0 then CHR ''-'' # show_nat (nat (- i)) else show_nat (nat i))"

definition eventTypeFormat :: "string \<Rightarrow> string" where
  "eventTypeFormat s = ''com.vmware.vsphere.'' @ s @ ''.v0''"

text \<open>
  The result of \<open>CEClient.Send\<close> is an error value; \<open>cloudevents.IsACK\<close> holds of
  \<open>nil\<close> and of every result that wraps the SDK's \<open>ResultACK\<close>.
\<close>

fun ResultIsACK :: "error \<Rightarrow> bool" where
  "ResultIsACK ResultACK = True"
| "ResultIsACK (Wrap m r) = ResultIsACK r"
| "ResultIsACK r = False"

type_synonym Result = "error option"

fun IsACK :: "Result \<Rightarrow> bool" where
  "IsACK None = True"
| "IsACK (Some r) = ResultIsACK r"

subsection \<open>The adapter and the calls it makes\<close>

text \<open>
  The fields of \<open>vAdapter\<close> that hold data. Its logger, its clients of vCenter and of
  the sink and its key-value store are the collaborators described below.
\<close>

record CheckpointConfig =
  MaxAge :: Duration
  Period :: Duration

record vAdapter =
  Source :: string
  VAPIVersion :: string
  CpConfig :: CheckpointConfig
  PayloadEncoding :: string

text \<open>
  The collaborators of the adapter (the key-value store, the event collector of vCenter,
  the sink, the clock) are outside the program. The model records every call made to
  them, in order, with the answer that came back; the answers are inputs of the model.
\<close>

datatype call =
    KVGet checkpoint "error option"
  | KVSet checkpoint "error option"
  | KVSave "error option"
  | GetCurrentTime "error + Time"
  | NewHistoryCollector Time "error option"
  | ReadNextEvents nat "BaseEvent list" "error option"
  | Send CloudEvent Result
  | Sleep Duration
  | Log level string

text \<open>
  The checkpoint that is staged in the store: the argument of the last \<open>KVStore.Set\<close>
  that returned no error. The number of durable writes: the calls of \<open>KVStore.Save\<close>.
\<close>

fun stagedBy :: "call \<Rightarrow> checkpoint option" where
  "stagedBy (KVSet cp None) = Some cp"
| "stagedBy c = None"

definition staged :: "call list \<Rightarrow> checkpoint option" where
  "staged tr = foldl (\<lambda>s c. case stagedBy c of Some cp \<Rightarrow> Some cp | None \<Rightarrow> s) None tr"

fun isSave :: "call \<Rightarrow> bool" where
  "isSave (KVSave e) = True"
| "isSave c = False"

definition saves :: "call list \<Rightarrow> nat" where
  "saves tr = length (filter isSave tr)"

fun sleepOf :: "call \<Rightarrow> Duration option" where
  "sleepOf (Sleep d) = Some d"
| "sleepOf c = None"

definition sleeps :: "call list \<Rightarrow> Duration list" where
  "sleeps tr = List.map_filter sleepOf tr"

text \<open>A call that neither stages a checkpoint, nor saves the store, nor sleeps.\<close>

definition quiet :: "call \<Rightarrow> bool" where
  "quiet c = (stagedBy c = None \<and> \<not> isSave c \<and> sleepOf c = None)"

subsection \<open>sendEvents\<close>

text \<open>
  The two setters of the CloudEvents SDK whose result depends on the SDK: \<open>SetSource\<close>
  keeps the source as the SDK parses and prints it (nothing when its parser rejects the
  string), and \<open>SetData\<close> encodes the payload for a content type, or fails. Both are
  parameters of the model.
\<close>

record sdk =
  SetSource :: "string \<Rightarrow> string"
  SetData :: "string \<Rightarrow> BaseEvent \<Rightarrow> error + string"

text \<open>
  The envelope of an event, before \<open>SetData\<close>, and the event that is sent once the
  payload \<open>d\<close> is encoded.
\<close>

definition envelope :: "sdk \<Rightarrow> vAdapter \<Rightarrow> BaseEvent \<Rightarrow> CloudEvent" where
  "envelope sdk a be =
     (let details = getEventDetails be
      in \<lparr>ceSource = SetSource sdk (Source a),
          ceID = show_int (sint (Key be)),
          ceType = eventTypeFormat (Type details),
          ceTime = CreatedTime be,
          ceExtensions = [ceVSphereEventClass \<mapsto> Class details, ceVSphereAPIKey \<mapsto> VAPIVersion a],
          ceDataContentType = [],
          ceData = []\<rparr>)"

definition withData :: "CloudEvent \<Rightarrow> string \<Rightarrow> string \<Rightarrow> CloudEvent" where
  "withData ev enc d = ev\<lparr>ceDataContentType := enc, ceData := d\<rparr>"

text \<open>
  \<open>SetData sdk enc be\<close> is the encoding of the payload (\<open>ev.SetData\<close>), which may fail;
  \<open>sink i ev\<close> is the answer of the sink to the send number \<open>i\<close> of the batch (counting
  from 0). The loop counts the events sent and acknowledged in \<open>success\<close> and returns on
  the first error.
\<close>

fun sendEvents_loop ::
  "sdk \<Rightarrow> vAdapter \<Rightarrow> (nat \<Rightarrow> CloudEvent \<Rightarrow> Result)
     \<Rightarrow> BaseEvent list \<Rightarrow> nat \<Rightarrow> call list \<Rightarrow> (nat \<times> error option) \<times> call list" where
  "sendEvents_loop sdk a sink [] success tr = ((success, None), tr)"
| "sendEvents_loop sdk a sink (be # bes) success tr =
     (case SetData sdk (PayloadEncoding a) be of
        Inl err \<Rightarrow> ((success, Some (Wrap ''set data on event'' err)), tr)
      | Inr d \<Rightarrow>
          (let ev = withData (envelope sdk a be) (PayloadEncoding a) d;
               result = sink success ev;
               tr' = tr @ [Log Debug ''sending event'', Send ev result]
           in if \<not> IsACK result
              then ((success, result), tr' @ [Log Error ''failed to send cloudevent''])
              else sendEvents_loop sdk a sink bes (success + 1) tr'))"

definition sendEvents ::
  "sdk \<Rightarrow> vAdapter \<Rightarrow> (nat \<Rightarrow> CloudEvent \<Rightarrow> Result)
     \<Rightarrow> BaseEvent list \<Rightarrow> call list \<Rightarrow> (nat \<times> error option) \<times> call list" where
  "sendEvents sdk a sink baseEvents tr = sendEvents_loop sdk a sink baseEvents 0 tr"

text \<open>
  Notions to state what \<open>sendEvents\<close> does: the conversion of one event (the envelope
  and its encoded payload, or the error that \<open>sendEvents\<close> returns for it), whether the
  event at send number \<open>i\<close> is converted and acknowledged by the sink, and the
  CloudEvents handed to the sink in a list of calls.
\<close>

definition convert ::
  "sdk \<Rightarrow> vAdapter \<Rightarrow> BaseEvent \<Rightarrow> error + CloudEvent" where
  "convert sdk a be =
     (case SetData sdk (PayloadEncoding a) be of
        Inl err \<Rightarrow> Inl (Wrap ''set data on event'' err)
      | Inr d \<Rightarrow> Inr (withData (envelope sdk a be) (PayloadEncoding a) d))"

definition sentOf ::
  "sdk \<Rightarrow> vAdapter \<Rightarrow> BaseEvent \<Rightarrow> CloudEvent list" where
  "sentOf sdk a be = (case convert sdk a be of Inl err \<Rightarrow> [] | Inr ev \<Rightarrow> [ev])"

definition delivered ::
  "sdk \<Rightarrow> vAdapter \<Rightarrow> (nat \<Rightarrow> CloudEvent \<Rightarrow> Result)
     \<Rightarrow> nat \<Rightarrow> BaseEvent \<Rightarrow> bool" where
  "delivered sdk a sink i be =
     (case convert sdk a be of Inl err \<Rightarrow> False | Inr ev \<Rightarrow> IsACK (sink i ev))"

fun sendOf :: "call \<Rightarrow> CloudEvent option" where
  "sendOf (Send ev r) = Some ev"
| "sendOf c = None"

definition sendsOf :: "call list \<Rightarrow> CloudEvent list" where
  "sendsOf tr = List.map_filter sendOf tr"

subsection \<open>The backoff of empty polls\<close>

text \<open>
  Modelled from the spec: the backoff is a library outside the repository. The spec gives
  its contract: \<open>next()\<close> returns \<open>duration(n) = min(max, min_delay * factor^n)\<close> for the
  \<open>n\<close>-th call since the last \<open>reset()\<close>, without jitter.
\<close>

record Backoff =
  attempt :: nat
  Factor :: int
  Jitter :: bool
  Min_dur :: Duration
  Max_dur :: Duration

definition ForAttempt :: "Backoff \<Rightarrow> nat \<Rightarrow> Duration" where
  "ForAttempt b n = word_of_int (min (sint (Max_dur b)) (sint (Min_dur b) * Factor b ^ n))"

definition Duration :: "Backoff \<Rightarrow> Duration \<times> Backoff" where
  "Duration b = (ForAttempt b (attempt b), b\<lparr>attempt := attempt b + 1\<rparr>)"

definition Reset :: "Backoff \<Rightarrow> Backoff" where
  "Reset b = b\<lparr>attempt := 0\<rparr>"

text \<open>The durations of \<open>n\<close> successive calls of \<open>Duration\<close>.\<close>

fun nexts :: "nat \<Rightarrow> Backoff \<Rightarrow> Duration list" where
  "nexts 0 b = []"
| "nexts (Suc n) b = fst (Duration b) # nexts n (snd (Duration b))"

subsection \<open>readEvents\<close>

text \<open>
  The context of the run: the instant at which it is cancelled, if ever, on the clock of
  the model (nanoseconds since \<open>readEvents\<close> began), and the value of \<open>ctx.Err()\<close> from
  then on. The clock of the model advances in \<open>time.Sleep\<close> only: the calls to the
  collaborators take no time.
\<close>

record Context =
  cancelAt :: "int option"
  ctxErr :: error

definition Done :: "Context \<Rightarrow> int \<Rightarrow> bool" where
  "Done ctx t = (case cancelAt ctx of None \<Rightarrow> False | Some c \<Rightarrow> c \<le> t)"

text \<open>The variables of \<open>readEvents\<close>, the clock and the calls made so far.\<close>

record state =
  lastEvent :: "BaseEvent option"
  lastCheckpointEventKey :: "32 word"
  bOff :: Backoff
  clock :: int
  calls :: "call list"

text \<open>
  What the world answers during one iteration of the loop: whether the checkpoint ticker
  has a tick pending when the \<open>select\<close> runs, the choice of the \<open>select\<close> when both the
  tick and \<open>ctx.Done()\<close> are ready (Go chooses at random), and the answers of the
  collaborators to the calls the iteration may make.
\<close>

record input =
  tickReady :: bool
  pickTick :: bool
  kvGet :: "checkpoint \<times> error option"
  kvSave :: "error option"
  readNext :: "BaseEvent list \<times> error option"
  send :: "nat \<Rightarrow> CloudEvent \<Rightarrow> Result"
  kvSet :: "error option"
  timeNow :: Time

datatype branch = CaseDone | CaseTick | CaseDefault

definition selectCase :: "Context \<Rightarrow> state \<Rightarrow> input \<Rightarrow> branch" where
  "selectCase ctx st i =
     (if Done ctx (clock st) \<and> tickReady i then (if pickTick i then CaseTick else CaseDone)
      else if Done ctx (clock st) then CaseDone
      else if tickReady i then CaseTick
      else CaseDefault)"

datatype step = Continue | Return error | Panic string

definition logc :: "level \<Rightarrow> string \<Rightarrow> state \<Rightarrow> state" where
  "logc l m st = st\<lparr>calls := calls st @ [Log l m]\<rparr>"

definition called :: "call \<Rightarrow> state \<Rightarrow> state" where
  "called c st = st\<lparr>calls := calls st @ [c]\<rparr>"

text \<open>The case of the checkpoint ticker.\<close>

definition tickCase :: "input \<Rightarrow> state \<Rightarrow> step \<times> state" where
  "tickCase i st =
     (case lastEvent st of
        None \<Rightarrow> (Continue, logc Debug ''skipping checkpoint: no new events since last checkpoint'' st)
      | Some le \<Rightarrow>
          if lastCheckpointEventKey st = Key le
          then (Continue, logc Debug ''skipping checkpoint: no new events since last checkpoint'' st)
          else
            (let st1 = called (KVGet (fst (kvGet i)) (snd (kvGet i))) st
             in case snd (kvGet i) of
                  Some err \<Rightarrow> (Return (Wrap ''retrieve current checkpoint'' err), st1)
                | None \<Rightarrow>
                    (let st2 = called (KVSave (kvSave i)) (logc Debug ''creating checkpoint'' st1)
                     in case kvSave i of
                          Some err \<Rightarrow> (Return (Wrap ''save checkpoint'' err), st2)
                        | None \<Rightarrow> (Continue, st2\<lparr>lastCheckpointEventKey := Key le\<rparr>))))"

text \<open>The default case: one poll of vCenter.\<close>

definition pollCase ::
  "sdk \<Rightarrow> vAdapter \<Rightarrow> input \<Rightarrow> state \<Rightarrow> step \<times> state" where
  "pollCase sdk a i st =
     (let events = fst (readNext i);
          st1 = called (ReadNextEvents maxEventsBatch events (snd (readNext i))) st
      in case snd (readNext i) of
           Some err \<Rightarrow> (Return (Wrap ''read events from vcenter'' err), st1)
         | None \<Rightarrow>
             if length events = 0 then
               (let delay = fst (Duration (bOff st1));
                    st2 = logc Debug ''backing off retrieving events: no new events received''
                            (st1\<lparr>bOff := snd (Duration (bOff st1))\<rparr>);
                    st3 = called (Sleep delay) st2
                in (Continue, st3\<lparr>clock := clock st3 + max 0 (sint delay)\<rparr>))
             else
               (let st2 = logc Debug ''got events'' st1;
                    sent = sendEvents sdk a (send i) events (calls st2);
                    n = fst (fst sent);
                    err = snd (fst sent);
                    st3 = st2\<lparr>calls := snd sent\<rparr>;
                    st4 = (if err \<noteq> None then logc Error ''send events'' st3 else st3)
                in if err \<noteq> None \<and> n = 0 then (Continue, st4)
                   else if n = 0 \<and> err = None then (Panic ''we should never get here'', st4)
                   else if length events \<le> n - 1 then (Panic ''index out of range'', st4)
                   else
                     (let le = events ! (n - 1);
                          st5 = st4\<lparr>lastEvent := Some le\<rparr>;
                          cp = \<lparr>VCenter = Source a,
                                LastEventKey = Key le,
                                LastEventType = Type (getEventDetails le),
                                LastEventKeyTimestamp = CreatedTime le,
                                CreatedTimestamp = timeNow i\<rparr>;
                          st6 = called (KVSet cp (kvSet i)) st5
                      in case kvSet i of
                           Some err \<Rightarrow> (Return (Wrap ''set checkpoint'' err), st6)
                         | None \<Rightarrow> (Continue, st6\<lparr>bOff := Reset (bOff st6)\<rparr>))))"

text \<open>One iteration of the \<open>for\<close> loop: the \<open>select\<close> and the case it chooses.\<close>

definition iteration ::
  "sdk \<Rightarrow> vAdapter \<Rightarrow> Context \<Rightarrow> input \<Rightarrow> state
     \<Rightarrow> step \<times> state" where
  "iteration sdk a ctx i st =
     (case selectCase ctx st i of
        CaseDone \<Rightarrow> (Return (ctxErr ctx), st)
      | CaseTick \<Rightarrow> tickCase i st
      | CaseDefault \<Rightarrow> pollCase sdk a i st)"

text \<open>
  The loop runs for ever unless an iteration returns. The model runs it on the answers
  of finitely many iterations; \<open>Running\<close> says that the loop is still going when they are
  used up.
\<close>

datatype outcome = Running | Returned error | Panicked string

fun readEvents_loop ::
  "sdk \<Rightarrow> vAdapter \<Rightarrow> Context \<Rightarrow> input list \<Rightarrow> state
     \<Rightarrow> outcome \<times> state" where
  "readEvents_loop sdk a ctx [] st = (Running, st)"
| "readEvents_loop sdk a ctx (i # is) st =
     (case iteration sdk a ctx i st of
        (Continue, st') \<Rightarrow> readEvents_loop sdk a ctx is st'
      | (Return err, st') \<Rightarrow> (Returned err, st')
      | (Panic m, st') \<Rightarrow> (Panicked m, st'))"

text \<open>
  \<open>readEvents\<close> declares its variables and the backoff, creates the checkpoint ticker
  and enters the loop. \<open>time.NewTicker\<close> panics when the period is not positive.
\<close>

definition bOff_init :: Backoff where
  "bOff_init = \<lparr>attempt = 0, Factor = 2, Jitter = False, Min_dur = Second, Max_dur = 5 * Second\<rparr>"

definition state_init :: "call list \<Rightarrow> state" where
  "state_init tr =
     \<lparr>lastEvent = None, lastCheckpointEventKey = 0, bOff = bOff_init, clock = 0, calls = tr\<rparr>"

definition readEvents ::
  "sdk \<Rightarrow> vAdapter \<Rightarrow> Context \<Rightarrow> input list \<Rightarrow> call list
     \<Rightarrow> outcome \<times> state" where
  "readEvents sdk a ctx script tr =
     (if sint (Period (CpConfig a)) \<le> 0
      then (Panicked ''non-positive interval for NewTicker'', state_init tr)
      else readEvents_loop sdk a ctx script (state_init tr))"

subsection \<open>run\<close>

text \<open>The answers to the three calls that \<open>run\<close> makes before the loop.\<close>

record startup =
  firstGet :: "checkpoint \<times> error option"
  currentTime :: "error + Time"
  collector :: "error option"

definition run ::
  "sdk \<Rightarrow> vAdapter \<Rightarrow> Context \<Rightarrow> startup \<Rightarrow> input list
     \<Rightarrow> outcome \<times> state" where
  "run sdk a ctx s script =
     (let cp = fst (firstGet s);
          tr1 = [KVGet cp (snd (firstGet s))] @
                (if snd (firstGet s) \<noteq> None
                 then [Log Warn ''could not retrieve checkpoint configuration''] else []);
          tr2 = tr1 @ [GetCurrentTime (currentTime s)]
      in case currentTime s of
           Inl err \<Rightarrow> (Returned (Wrap ''get current time from vCenter'' err), state_init tr2)
         | Inr vcTime \<Rightarrow>
             (let b = getBeginFromCheckpoint vcTime cp (MaxAge (CpConfig a));
                  tr3 = tr2 @ map (\<lambda>(l, m). Log l m) (snd b) @
                        [NewHistoryCollector (fst b) (collector s)]
              in case collector s of
                   Some err \<Rightarrow> (Returned (Wrap ''create event collector'' err), state_init tr3)
                 | None \<Rightarrow> readEvents sdk a ctx script tr3))"

subsection \<open>Notions about the iterations of the loop\<close>

text \<open>
  \<open>firing ctx i\<close>: the checkpoint ticker has fired and the \<open>select\<close> serves it in this
  iteration, in whatever state the loop is. \<open>undelivered sdk a i\<close>: a poll with these
  answers delivers no event (the read fails, or the batch is empty, or \<open>sendEvents\<close>
  counts 0). \<open>flushDue st\<close>: the condition under which the ticker case does not skip.
\<close>

definition firing :: "Context \<Rightarrow> input \<Rightarrow> bool" where
  "firing ctx i = (tickReady i \<and> (pickTick i \<or> cancelAt ctx = None))"

definition undelivered ::
  "sdk \<Rightarrow> vAdapter \<Rightarrow> input \<Rightarrow> bool" where
  "undelivered sdk a i =
     (snd (readNext i) \<noteq> None
      \<or> fst (fst (sendEvents sdk a (send i) (fst (readNext i)) [])) = 0)"

definition flushDue :: "state \<Rightarrow> bool" where
  "flushDue st =
     (case lastEvent st of None \<Rightarrow> False | Some le \<Rightarrow> lastCheckpointEventKey st \<noteq> Key le)"

text \<open>
  The duration, in nanoseconds, that the backoff is to return for the \<open>n\<close>-th empty poll
  in a row, counted from 0: one second doubled \<open>n\<close> times, at most five seconds.
\<close>

definition backoff_ns :: "nat \<Rightarrow> int" where
  "backoff_ns n = min 5000000000 (1000000000 * 2 ^ n)"

subsection \<open>Concrete inputs\<close>

text \<open>
  An adapter, an encoder of payloads that knows two content types, an SDK that keeps
  the source as it is given and encodes with that encoder, events with a given key
  (created one second apart), a sink that rejects the send number \<open>k\<close> of a batch,
  a context that is never cancelled and one that is cancelled at a given instant, and
  the answers of a world in which nothing happens: no tick, no events, no failure.
\<close>

definition adapter0 :: vAdapter where
  "adapter0 =
     \<lparr>Source = ''vcenter.local'', VAPIVersion = ''7.0'',
      CpConfig = \<lparr>MaxAge = 3600 * Second, Period = 10 * Second\<rparr>,
      PayloadEncoding = ''application/xml''\<rparr>"

definition encode0 :: "string \<Rightarrow> BaseEvent \<Rightarrow> error + string" where
  "encode0 enc be =
     (if enc = ''application/xml'' \<or> enc = ''application/json'' then Inr (Body be)
      else Inl (Err ''unsupported content type''))"

definition sdk0 :: sdk where
  "sdk0 = \<lparr>SetSource = (\<lambda>s. s), SetData = encode0\<rparr>"

definition event0 :: "32 word \<Rightarrow> BaseEvent" where
  "event0 k =
     \<lparr>Key = k, CreatedTime = 63800000000000000000 + sint k * 1000000000,
      Details = \<lparr>Class = ''event'', Type = ''VmPoweredOnEvent''\<rparr>, Body = ''<event/>''\<rparr>"

definition nackAt :: "nat \<Rightarrow> nat \<Rightarrow> CloudEvent \<Rightarrow> Result" where
  "nackAt k i ev = (if i = k then Some ResultNACK else None)"

definition ctx0 :: Context where
  "ctx0 = \<lparr>cancelAt = None, ctxErr = Canceled\<rparr>"

definition cancelled_at :: "int \<Rightarrow> Context" where
  "cancelled_at t = \<lparr>cancelAt = Some t, ctxErr = Canceled\<rparr>"

definition idle :: input where
  "idle =
     \<lparr>tickReady = False, pickTick = False, kvGet = (zero_checkpoint, None), kvSave = None,
      readNext = ([], None), send = (\<lambda>i ev. None), kvSet = None, timeNow = 63800000100000000000\<rparr>"

definition tick :: input where
  "tick = idle\<lparr>tickReady := True\<rparr>"

definition poll :: "BaseEvent list \<Rightarrow> (nat \<Rightarrow> CloudEvent \<Rightarrow> Result) \<Rightarrow> input" where
  "poll evs sink = idle\<lparr>readNext := (evs, None), send := sink\<rparr>"

definition startup0 :: startup where
  "startup0 =
     \<lparr>firstGet = (zero_checkpoint, None), currentTime = Inr 63800000000500000000,
      collector = None\<rparr>"

section \<open>Where the event stream begins\<close>

lemma sint_neg_le: "sint (x * (- 1) :: 64 word) \<le> - sint x"
proof -
  have r: "- (2 ^ 63) \<le> sint x" "sint x < 2 ^ 63"
    using sint_ge [of x] sint_lt [of x] by simp_all
  have e: "sint (x * (- 1)) = signed_take_bit 63 (- sint x)"
    by (simp add: sint_word_ariths)
  show ?thesis
  proof (cases "sint x = - (2 ^ 63)")
    case True
    then show ?thesis unfolding e by (simp add: signed_take_bit_eq_take_bit_minus)
  next
    case False
    with r have "- (2 ^ 63) \<le> - sint x \<and> - sint x < 2 ^ 63" by simp
    then have "signed_take_bit 63 (- sint x) = - sint x"
      by (simp add: signed_take_bit_int_eq_self_iff)
    then show ?thesis unfolding e by simp
  qed
qed

lemma sint_neg_eq:
  assumes "sint x \<noteq> - (2 ^ 63)"
  shows "sint (x * (- 1) :: 64 word) = - sint x"
proof -
  have r: "- (2 ^ 63) \<le> sint x" "sint x < 2 ^ 63"
    using sint_ge [of x] sint_lt [of x] by simp_all
  have e: "sint (x * (- 1)) = signed_take_bit 63 (- sint x)"
    by (simp add: sint_word_ariths)
  from assms r have "- (2 ^ 63) \<le> - sint x \<and> - sint x < 2 ^ 63" by simp
  then have "signed_take_bit 63 (- sint x) = - sint x"
    by (simp add: signed_take_bit_int_eq_self_iff)
  then show ?thesis unfolding e by simp
qed

lemma Unix_mono: "s \<le> t \<Longrightarrow> Unix s \<le> Unix t"
  by (simp add: Unix_def zdiv_mono1)

text \<open>
  C3 (exact resume). For every current time of vCenter, every maximum age and every
  checkpoint whose last event timestamp is not the zero time and is not before the
  current time minus the maximum age, \<open>getBeginFromCheckpoint\<close> returns the last event
  timestamp of the checkpoint. The maximum age is any \<open>int64\<close> duration; the bound is
  read on the integers.
\<close>

theorem exact_resume:
  assumes "\<not> IsZero (LastEventKeyTimestamp cp)"
    and "LastEventKeyTimestamp cp \<ge> vcTime - sint maxAge"
  shows "fst (getBeginFromCheckpoint vcTime cp maxAge) = LastEventKeyTimestamp cp"
proof -
  have "Add vcTime (maxAge * (- 1)) \<le> vcTime - sint maxAge"
    using sint_neg_le [of maxAge] by (simp add: Add_def)
  with assms(2) have "Unix (Add vcTime (maxAge * (- 1))) \<le> Unix (LastEventKeyTimestamp cp)"
    by (intro Unix_mono) simp
  with assms(1) show ?thesis
    by (simp add: getBeginFromCheckpoint_def Let_def)
qed

text \<open>
  The current time is 63800000000.5 seconds after the zero time, the maximum age is one
  hour and the checkpoint is 3599.8 seconds old.
\<close>

theorem exact_resume_witness:
  "\<not> IsZero (LastEventKeyTimestamp (zero_checkpoint\<lparr>LastEventKeyTimestamp := 63799996400700000000\<rparr>))
   \<and> LastEventKeyTimestamp (zero_checkpoint\<lparr>LastEventKeyTimestamp := 63799996400700000000\<rparr>)
       \<ge> 63800000000500000000 - sint (3600000000000 :: Duration)
   \<and> fst (getBeginFromCheckpoint 63800000000500000000
        (zero_checkpoint\<lparr>LastEventKeyTimestamp := 63799996400700000000\<rparr>) 3600000000000)
      = 63799996400700000000"
  using exact_resume [of "zero_checkpoint\<lparr>LastEventKeyTimestamp := 63799996400700000000\<rparr>"
      63800000000500000000 3600000000000]
  by (simp add: IsZero_def)

text \<open>
  C4 (replay clamp), as the claim states it, fails: the checkpoint below is 0.3 seconds
  older than the current time minus the maximum age of one hour, in the same whole
  second, and \<open>getBeginFromCheckpoint\<close> returns the timestamp of the checkpoint.
\<close>

theorem replay_clamp_counterexample:
  "\<not> IsZero (LastEventKeyTimestamp (zero_checkpoint\<lparr>LastEventKeyTimestamp := 63799996400200000000\<rparr>))
   \<and> LastEventKeyTimestamp (zero_checkpoint\<lparr>LastEventKeyTimestamp := 63799996400200000000\<rparr>)
       < 63800000000500000000 - sint (3600000000000 :: Duration)
   \<and> fst (getBeginFromCheckpoint 63800000000500000000
        (zero_checkpoint\<lparr>LastEventKeyTimestamp := 63799996400200000000\<rparr>) 3600000000000)
      \<noteq> 63800000000500000000 - sint (3600000000000 :: Duration)
   \<and> fst (getBeginFromCheckpoint 63800000000500000000
        (zero_checkpoint\<lparr>LastEventKeyTimestamp := 63799996400200000000\<rparr>) 3600000000000)
      = 63799996400200000000"
  by (simp add: getBeginFromCheckpoint_def IsZero_def Add_def Unix_def Let_def)

text \<open>
  C4, amended. The two times are compared in whole Unix seconds. For every checkpoint
  whose last event timestamp is not the zero time: if it lies in an earlier whole second
  than the current time minus the maximum age, \<open>getBeginFromCheckpoint\<close> returns the
  current time minus the maximum age and logs the warning of a potential data loss; if
  it does not, \<open>getBeginFromCheckpoint\<close> returns the timestamp of the checkpoint
  without that warning, also when the timestamp is older than the current time minus
  the maximum age, inside the same whole second. The maximum age is any \<open>int64\<close>
  duration but the least one, whose negation wraps.
\<close>

theorem replay_clamp:
  assumes "\<not> IsZero (LastEventKeyTimestamp cp)"
    and "sint maxAge \<noteq> - (2 ^ 63)"
  shows "(Unix (LastEventKeyTimestamp cp) < Unix (vcTime - sint maxAge)
        \<longrightarrow> fst (getBeginFromCheckpoint vcTime cp maxAge) = vcTime - sint maxAge
          \<and> (Warn, data_loss_warning) \<in> set (snd (getBeginFromCheckpoint vcTime cp maxAge)))
     \<and> (Unix (vcTime - sint maxAge) \<le> Unix (LastEventKeyTimestamp cp)
        \<longrightarrow> fst (getBeginFromCheckpoint vcTime cp maxAge) = LastEventKeyTimestamp cp
          \<and> (Warn, data_loss_warning) \<notin> set (snd (getBeginFromCheckpoint vcTime cp maxAge)))
     \<and> (LastEventKeyTimestamp cp < vcTime - sint maxAge
          \<and> Unix (LastEventKeyTimestamp cp) = Unix (vcTime - sint maxAge)
        \<longrightarrow> fst (getBeginFromCheckpoint vcTime cp maxAge) = LastEventKeyTimestamp cp)"
proof -
  have "Add vcTime (maxAge * (- 1)) = vcTime - sint maxAge"
    using sint_neg_eq [OF assms(2)] by (simp add: Add_def)
  with assms(1) show ?thesis
    by (simp add: getBeginFromCheckpoint_def Let_def)
qed

text \<open>
  A checkpoint ten hours old and a checkpoint 0.3 seconds older than the limit of one
  hour, in its whole second.
\<close>

theorem replay_clamp_witness:
  "\<not> IsZero (LastEventKeyTimestamp (zero_checkpoint\<lparr>LastEventKeyTimestamp := 63799960000000000000\<rparr>))
   \<and> sint (3600000000000 :: Duration) \<noteq> - (2 ^ 63)
   \<and> Unix (LastEventKeyTimestamp (zero_checkpoint\<lparr>LastEventKeyTimestamp := 63799960000000000000\<rparr>))
       < Unix (63800000000500000000 - sint (3600000000000 :: Duration))
   \<and> fst (getBeginFromCheckpoint 63800000000500000000
        (zero_checkpoint\<lparr>LastEventKeyTimestamp := 63799960000000000000\<rparr>) 3600000000000)
      = 63799996400500000000
   \<and> (Warn, data_loss_warning) \<in> set (snd (getBeginFromCheckpoint 63800000000500000000
        (zero_checkpoint\<lparr>LastEventKeyTimestamp := 63799960000000000000\<rparr>) 3600000000000))
   \<and> LastEventKeyTimestamp (zero_checkpoint\<lparr>LastEventKeyTimestamp := 63799996400200000000\<rparr>)
       < 63800000000500000000 - sint (3600000000000 :: Duration)
   \<and> Unix (LastEventKeyTimestamp (zero_checkpoint\<lparr>LastEventKeyTimestamp := 63799996400200000000\<rparr>))
       = Unix (63800000000500000000 - sint (3600000000000 :: Duration))
   \<and> fst (getBeginFromCheckpoint 63800000000500000000
        (zero_checkpoint\<lparr>LastEventKeyTimestamp := 63799996400200000000\<rparr>) 3600000000000)
      = 63799996400200000000
   \<and> (Warn, data_loss_warning) \<notin> set (snd (getBeginFromCheckpoint 63800000000500000000
        (zero_checkpoint\<lparr>LastEventKeyTimestamp := 63799996400200000000\<rparr>) 3600000000000))"
  using replay_clamp [of "zero_checkpoint\<lparr>LastEventKeyTimestamp := 63799960000000000000\<rparr>"
      3600000000000 63800000000500000000]
    replay_clamp [of "zero_checkpoint\<lparr>LastEventKeyTimestamp := 63799996400200000000\<rparr>"
      3600000000000 63800000000500000000]
  by (simp add: IsZero_def Unix_def)

text \<open>
  C9 (disabled replay window), as the claim states it, fails: with a maximum age of 0
  and a checkpoint whose last event is one second later than the current time of
  vCenter, \<open>getBeginFromCheckpoint\<close> returns the timestamp of the checkpoint.
\<close>

theorem disabled_replay_counterexample:
  "fst (getBeginFromCheckpoint 63800000000500000000
        (zero_checkpoint\<lparr>LastEventKeyTimestamp := 63800000001500000000\<rparr>) 0)
      \<noteq> 63800000000500000000
   \<and> fst (getBeginFromCheckpoint 63800000000500000000
        (zero_checkpoint\<lparr>LastEventKeyTimestamp := 63800000001500000000\<rparr>) 0)
      = 63800000001500000000"
  by (simp add: getBeginFromCheckpoint_def IsZero_def Add_def Unix_def Let_def)

text \<open>
  C9, amended. With a maximum age of 0, \<open>getBeginFromCheckpoint\<close> returns the current
  time of vCenter for every checkpoint whose last event timestamp is the zero time or
  lies in an earlier whole Unix second than the current time; for a timestamp that is
  not zero and lies in the same or a later whole second it returns that timestamp.
\<close>

theorem disabled_replay:
  "fst (getBeginFromCheckpoint vcTime cp 0) =
     (if IsZero (LastEventKeyTimestamp cp) \<or> Unix (LastEventKeyTimestamp cp) < Unix vcTime
      then vcTime else LastEventKeyTimestamp cp)"
  by (simp add: getBeginFromCheckpoint_def Let_def Add_def)

theorem disabled_replay_witness:
  "fst (getBeginFromCheckpoint 63800000000500000000
        (zero_checkpoint\<lparr>LastEventKeyTimestamp := 63799999999900000000\<rparr>) 0)
      = 63800000000500000000"
  using disabled_replay [of 63800000000500000000
      "zero_checkpoint\<lparr>LastEventKeyTimestamp := 63799999999900000000\<rparr>"]
  by (simp add: IsZero_def Unix_def)

section \<open>What sendEvents returns\<close>

lemma sendsOf_append: "sendsOf (xs @ ys) = sendsOf xs @ sendsOf ys"
  by (simp add: sendsOf_def map_filter_def)

lemma sendsOf_simps [simp]:
  "sendsOf [] = []"
  "sendsOf (Send ev r # cs) = ev # sendsOf cs"
  "sendsOf (Log l m # cs) = sendsOf cs"
  by (simp_all add: sendsOf_def map_filter_simps)

lemma sendEvents_loop_count:
  "fst (fst (sendEvents_loop sd a sink bes s tr)) \<le> s + length bes
   \<and> s \<le> fst (fst (sendEvents_loop sd a sink bes s tr))
   \<and> (snd (fst (sendEvents_loop sd a sink bes s tr)) = None)
      = (fst (fst (sendEvents_loop sd a sink bes s tr)) = s + length bes)"
proof (induction bes arbitrary: s tr)
  case Nil
  then show ?case by simp
next
  case (Cons be bes)
  show ?case
  proof (cases "SetData sd (PayloadEncoding a) be")
    case (Inl err)
    then show ?thesis by simp
  next
    case (Inr d)
    let ?ev = "withData (envelope sd a be) (PayloadEncoding a) d"
    show ?thesis
    proof (cases "IsACK (sink s ?ev)")
      case True
      with Inr Cons.IH [of "Suc s" "tr @ [Log Debug ''sending event'', Send ?ev (sink s ?ev)]"]
      show ?thesis by (simp add: Let_def)
    next
      case False
      then have "sink s ?ev \<noteq> None" by (cases "sink s ?ev") auto
      with Inr False show ?thesis by (simp add: Let_def)
    qed
  qed
qed

lemma sendEvents_loop_fail:
  assumes "k < length bes"
    and "\<forall>j<k. delivered sd a sink (s + j) (bes ! j)"
    and "\<not> delivered sd a sink (s + k) (bes ! k)"
  shows "fst (fst (sendEvents_loop sd a sink bes s tr)) = s + k
    \<and> snd (fst (sendEvents_loop sd a sink bes s tr)) \<noteq> None
    \<and> snd (fst (sendEvents_loop sd a sink bes s tr))
        = (case convert sd a (bes ! k) of Inl err \<Rightarrow> Some err | Inr ev \<Rightarrow> sink (s + k) ev)
    \<and> sendsOf (snd (sendEvents_loop sd a sink bes s tr))
        = sendsOf tr @ concat (map (sentOf sd a) (take (Suc k) bes))"
  using assms
proof (induction bes arbitrary: k s tr)
  case Nil
  then show ?case by simp
next
  case (Cons be bes)
  show ?case
  proof (cases k)
    case 0
    show ?thesis
    proof (cases "SetData sd (PayloadEncoding a) be")
      case (Inl err)
      with 0 show ?thesis by (simp add: sentOf_def convert_def)
    next
      case (Inr d)
      with Cons.prems(3) 0
      have nack: "\<not> IsACK (sink s (withData (envelope sd a be) (PayloadEncoding a) d))"
        by (simp add: delivered_def convert_def)
      then have "sink s (withData (envelope sd a be) (PayloadEncoding a) d) \<noteq> None"
        by (cases "sink s (withData (envelope sd a be) (PayloadEncoding a) d)") auto
      with Inr nack 0 show ?thesis
        by (simp add: Let_def sendsOf_append sentOf_def convert_def)
    qed
  next
    case (Suc k')
    from Cons.prems(2) Suc have d0: "delivered sd a sink s be" by fastforce
    then obtain d where d: "SetData sd (PayloadEncoding a) be = Inr d"
      and ack: "IsACK (sink s (withData (envelope sd a be) (PayloadEncoding a) d))"
      by (auto simp: delivered_def convert_def split: sum.splits)
    let ?ev = "withData (envelope sd a be) (PayloadEncoding a) d"
    let ?tr = "tr @ [Log Debug ''sending event'', Send ?ev (sink s ?ev)]"
    have p1: "k' < length bes" using Cons.prems(1) Suc by simp
    have p2: "\<forall>j<k'. delivered sd a sink (Suc s + j) (bes ! j)"
      using Cons.prems(2) Suc by fastforce
    have p3: "\<not> delivered sd a sink (Suc s + k') (bes ! k')"
      using Cons.prems(3) Suc by simp
    have s0: "sentOf sd a be = [?ev]" using d by (simp add: sentOf_def convert_def)
    have u: "sendEvents_loop sd a sink (be # bes) s tr = sendEvents_loop sd a sink bes (Suc s) ?tr"
      using d ack by (simp add: Let_def)
    have i: "Suc s + k' = s + k" "(be # bes) ! k = bes ! k'" "take (Suc k) (be # bes) = be # take (Suc k') bes"
      using Suc by simp_all
    from Cons.IH [OF p1 p2 p3, of ?tr] show ?thesis
      unfolding u i by (auto simp add: s0 sendsOf_append)
  qed
qed

lemma sendEvents_loop_acked:
  "j < fst (fst (sendEvents_loop sd a sink bes s tr)) - s
     \<Longrightarrow> delivered sd a sink (s + j) (bes ! j)"
proof (induction bes arbitrary: j s tr)
  case Nil
  then show ?case by simp
next
  case (Cons be bes)
  show ?case
  proof (cases "SetData sd (PayloadEncoding a) be")
    case (Inl err)
    with Cons.prems show ?thesis by simp
  next
    case (Inr d)
    let ?ev = "withData (envelope sd a be) (PayloadEncoding a) d"
    show ?thesis
    proof (cases "IsACK (sink s ?ev)")
      case False
      with Inr Cons.prems show ?thesis by (simp add: Let_def)
    next
      case True
      show ?thesis
      proof (cases j)
        case 0
        with Inr True show ?thesis by (simp add: delivered_def convert_def)
      next
        case (Suc j')
        with Inr True Cons.prems
        have "j' < fst (fst (sendEvents_loop sd a sink bes (Suc s)
                 (tr @ [Log Debug ''sending event'', Send ?ev (sink s ?ev)]))) - Suc s"
          by (simp add: Let_def)
        from Cons.IH [OF this] Suc show ?thesis by simp
      qed
    qed
  qed
qed

lemma sendEvents_nonempty:
  assumes "events \<noteq> []"
  shows "1 \<le> fst (fst (sendEvents sd a sink events tr))
     \<or> snd (fst (sendEvents sd a sink events tr)) \<noteq> None"
proof (cases "snd (fst (sendEvents sd a sink events tr))")
  case None
  then have "fst (fst (sendEvents sd a sink events tr)) = length events"
    using sendEvents_loop_count [of sd a sink events 0 tr] by (simp add: sendEvents_def)
  with assms show ?thesis by (cases events) simp_all
next
  case (Some e)
  then show ?thesis by simp
qed

lemma sendEvents_le:
  "fst (fst (sendEvents sd a sink events tr)) \<le> length events"
  using sendEvents_loop_count [of sd a sink events 0 tr] by (simp add: sendEvents_def)

lemma tickCase_no_panic: "fst (tickCase i st) \<noteq> Panic m"
  by (simp add: tickCase_def Let_def split: option.splits)

lemma pollCase_no_panic: "fst (pollCase sd a i st) \<noteq> Panic m"
proof (cases "fst (readNext i) = []")
  case True
  then show ?thesis by (simp add: pollCase_def Let_def split: option.splits)
next
  case False
  let ?tr = "calls (logc Debug ''got events''
      (called (ReadNextEvents maxEventsBatch (fst (readNext i)) (snd (readNext i))) st))"
  note ne = sendEvents_nonempty [OF False, of sd a "send i" ?tr]
  note le = sendEvents_le [of sd a "send i" "fst (readNext i)" ?tr]
  from False ne le show ?thesis
    by (auto simp add: pollCase_def Let_def split: option.splits)
qed

lemma iteration_no_panic: "fst (iteration sd a ctx i st) \<noteq> Panic m"
  by (simp add: iteration_def tickCase_no_panic pollCase_no_panic split: branch.splits)

lemma readEvents_loop_no_panic: "fst (readEvents_loop sd a ctx script st) \<noteq> Panicked m"
proof (induction script arbitrary: st)
  case Nil
  then show ?case by simp
next
  case (Cons i script)
  obtain r st' where it: "iteration sd a ctx i st = (r, st')" by (cases "iteration sd a ctx i st")
  with iteration_no_panic [of sd a ctx i st] have "\<And>m. r \<noteq> Panic m" by simp
  with it Cons.IH [of st'] show ?case by (cases r) simp_all
qed

lemma sendEvents_loop_calls:
  "\<exists>xs. snd (sendEvents_loop sd a sink bes s tr) = tr @ xs \<and> (\<forall>c\<in>set xs. quiet c)"
proof (induction bes arbitrary: s tr)
  case Nil
  then show ?case by simp
next
  case (Cons be bes)
  show ?case
  proof (cases "SetData sd (PayloadEncoding a) be")
    case (Inl err)
    then show ?thesis by simp
  next
    case (Inr d)
    let ?ev = "withData (envelope sd a be) (PayloadEncoding a) d"
    let ?tr = "tr @ [Log Debug ''sending event'', Send ?ev (sink s ?ev)]"
    show ?thesis
    proof (cases "IsACK (sink s ?ev)")
      case True
      from Cons.IH [of "Suc s" ?tr] obtain xs
        where "snd (sendEvents_loop sd a sink bes (Suc s) ?tr) = ?tr @ xs" "\<forall>c\<in>set xs. quiet c"
        by blast
      with Inr True show ?thesis by (simp add: Let_def quiet_def)
    next
      case False
      with Inr show ?thesis by (simp add: Let_def quiet_def)
    qed
  qed
qed

lemma staged_snoc:
  "staged (tr @ [c]) = (case stagedBy c of Some cp \<Rightarrow> Some cp | None \<Rightarrow> staged tr)"
  by (simp add: staged_def split: option.splits)

lemma staged_quiet: "\<forall>c\<in>set xs. quiet c \<Longrightarrow> staged (tr @ xs) = staged tr"
proof (induction xs rule: rev_induct)
  case Nil
  then show ?case by simp
next
  case (snoc x xs)
  then show ?case by (simp add: staged_snoc [of "tr @ xs", simplified] quiet_def)
qed

lemma saves_append: "saves (tr @ xs) = saves tr + saves xs"
  by (simp add: saves_def)

lemma saves_quiet: "\<forall>c\<in>set xs. quiet c \<Longrightarrow> saves xs = 0"
  by (induction xs) (simp_all add: saves_def quiet_def)

lemma sleeps_append: "sleeps (tr @ xs) = sleeps tr @ sleeps xs"
  by (simp add: sleeps_def map_filter_def)

lemma sleeps_quiet: "\<forall>c\<in>set xs. quiet c \<Longrightarrow> sleeps xs = []"
  by (induction xs) (simp_all add: sleeps_def quiet_def map_filter_simps)

lemma sendEvents_loop_count_tr:
  "fst (sendEvents_loop sd a sink bes s tr) = fst (sendEvents_loop sd a sink bes s tr')"
proof (induction bes arbitrary: s tr tr')
  case Nil
  then show ?case by simp
next
  case (Cons be bes)
  show ?case
  proof (cases "SetData sd (PayloadEncoding a) be")
    case (Inl err)
    then show ?thesis by simp
  next
    case (Inr d)
    with Cons.IH show ?thesis by (simp add: Let_def)
  qed
qed

lemma pollCase_batch:
  assumes rn: "readNext i = (events, None)" and ne: "events \<noteq> []"
    and se: "sendEvents sd a (send i) events
       (calls st @ [ReadNextEvents maxEventsBatch events None, Log Debug ''got events'']) = ((n, err), tr)"
  shows "pollCase sd a i st =
    (if n = 0 then (Continue, st\<lparr>calls := tr @ [Log Error ''send events'']\<rparr>)
     else
       (let le = events ! (n - 1);
            cp = \<lparr>VCenter = Source a, LastEventKey = Key le,
                  LastEventType = Type (getEventDetails le),
                  LastEventKeyTimestamp = CreatedTime le, CreatedTimestamp = timeNow i\<rparr>;
            tr' = tr @ (if err \<noteq> None then [Log Error ''send events''] else []) @ [KVSet cp (kvSet i)]
        in case kvSet i of
             Some e \<Rightarrow> (Return (Wrap ''set checkpoint'' e), st\<lparr>lastEvent := Some le, calls := tr'\<rparr>)
           | None \<Rightarrow> (Continue, st\<lparr>lastEvent := Some le, bOff := Reset (bOff st), calls := tr'\<rparr>)))"
proof -
  let ?tr0 = "calls st @ [ReadNextEvents maxEventsBatch events None, Log Debug ''got events'']"
  from sendEvents_nonempty [OF ne, of sd a "send i" ?tr0] se
  have p: "1 \<le> n \<or> err \<noteq> None" by simp
  from sendEvents_le [of sd a "send i" events ?tr0] se
  have l: "n \<le> length events" by simp
  show ?thesis
  proof (cases "n = 0")
    case True
    with p have "err \<noteq> None" by simp
    with True rn ne se show ?thesis
      by (simp add: pollCase_def Let_def called_def logc_def)
  next
    case False
    with l have "\<not> length events \<le> n - 1" by arith
    with False rn ne se show ?thesis
      by (cases "kvSet i") (simp_all add: pollCase_def Let_def called_def logc_def)
  qed
qed

lemma poll_simps:
  "tickReady (poll evs sink) = False" "readNext (poll evs sink) = (evs, None)"
  "send (poll evs sink) = sink" "kvSet (poll evs sink) = None"
  by (simp_all add: poll_def idle_def)


text \<open>
  C2 (partial failure of a batch). For every batch of \<open>N\<close> events and every position
  \<open>k\<close> (counted from 1) such that the events before \<open>k\<close> are converted and acknowledged
  by the sink, and the event at \<open>k\<close> fails to convert or is not acknowledged:
  \<open>sendEvents\<close> returns the count \<open>k - 1\<close> and an error that is not \<open>nil\<close>, namely the
  error of the conversion or the result of the sink; the CloudEvents handed to the sink
  are the conversions of the first \<open>k\<close> events at most, in the order of the batch, so
  no event after position \<open>k\<close> is sent. For every batch, the error is \<open>nil\<close> exactly
  when the count is \<open>N\<close>.
\<close>

theorem dispatch_partial_failure:
  "(1 \<le> k \<and> k \<le> length events
      \<and> (\<forall>j<k - 1. delivered sd a sink j (events ! j))
      \<and> \<not> delivered sd a sink (k - 1) (events ! (k - 1))
    \<longrightarrow> fst (fst (sendEvents sd a sink events tr)) = k - 1
        \<and> snd (fst (sendEvents sd a sink events tr)) \<noteq> None
        \<and> snd (fst (sendEvents sd a sink events tr))
            = (case convert sd a (events ! (k - 1)) of
                 Inl err \<Rightarrow> Some err | Inr ev \<Rightarrow> sink (k - 1) ev)
        \<and> sendsOf (snd (sendEvents sd a sink events tr))
            = sendsOf tr @ concat (map (sentOf sd a) (take k events)))
   \<and> ((snd (fst (sendEvents sd a sink events tr)) = None)
        = (fst (fst (sendEvents sd a sink events tr)) = length events))"
proof (intro conjI impI)
  assume h: "1 \<le> k \<and> k \<le> length events
      \<and> (\<forall>j<k - 1. delivered sd a sink j (events ! j))
      \<and> \<not> delivered sd a sink (k - 1) (events ! (k - 1))"
  then have k: "k - 1 < length events" "Suc (k - 1) = k" by arith+
  from h have a: "\<forall>j<k - 1. delivered sd a sink (0 + j) (events ! j)"
    and n: "\<not> delivered sd a sink (0 + (k - 1)) (events ! (k - 1))" by simp_all
  note r = sendEvents_loop_fail [OF k(1) a n, of tr, unfolded k(2)]
  from r show "fst (fst (sendEvents sd a sink events tr)) = k - 1"
    by (simp add: sendEvents_def)
  from r show "snd (fst (sendEvents sd a sink events tr)) \<noteq> None"
    by (auto simp add: sendEvents_def)
  from r show "snd (fst (sendEvents sd a sink events tr))
            = (case convert sd a (events ! (k - 1)) of
                 Inl err \<Rightarrow> Some err | Inr ev \<Rightarrow> sink (k - 1) ev)"
    by (simp add: sendEvents_def cong: sum.case_cong)
  from r show "sendsOf (snd (sendEvents sd a sink events tr))
            = sendsOf tr @ concat (map (sentOf sd a) (take k events))"
    by (simp add: sendEvents_def)
next
  show "(snd (fst (sendEvents sd a sink events tr)) = None)
        = (fst (fst (sendEvents sd a sink events tr)) = length events)"
    using sendEvents_loop_count [of sd a sink events 0 tr] by (simp add: sendEvents_def)
qed


text \<open>A batch of five events whose third event the sink rejects.\<close>

theorem dispatch_partial_failure_witness:
  "fst (fst (sendEvents sdk0 adapter0 (nackAt 2) (map event0 [10, 11, 12, 13, 14]) [])) = 2
   \<and> snd (fst (sendEvents sdk0 adapter0 (nackAt 2) (map event0 [10, 11, 12, 13, 14]) []))
       = Some ResultNACK
   \<and> map ceID (sendsOf (snd (sendEvents sdk0 adapter0 (nackAt 2)
        (map event0 [10, 11, 12, 13, 14]) []))) = [''10'', ''11'', ''12'']"
proof -
  have h: "1 \<le> (3::nat) \<and> 3 \<le> length (map event0 [10, 11, 12, 13, 14])
      \<and> (\<forall>j<3 - 1. delivered sdk0 adapter0 (nackAt 2) j (map event0 [10, 11, 12, 13, 14] ! j))
      \<and> \<not> delivered sdk0 adapter0 (nackAt 2) (3 - 1) (map event0 [10, 11, 12, 13, 14] ! (3 - 1))"
    by (simp add: delivered_def convert_def sdk0_def encode0_def adapter0_def nackAt_def numeral_2_eq_2 less_Suc_eq all_conj_distrib)
  from dispatch_partial_failure [of 3 "map event0 [10, 11, 12, 13, 14]" sdk0 adapter0 "nackAt 2" "[]"] h
  have r: "fst (fst (sendEvents sdk0 adapter0 (nackAt 2) (map event0 [10, 11, 12, 13, 14]) [])) = 3 - 1"
    "snd (fst (sendEvents sdk0 adapter0 (nackAt 2) (map event0 [10, 11, 12, 13, 14]) []))
            = (case convert sdk0 adapter0 (map event0 [10, 11, 12, 13, 14] ! (3 - 1)) of
                 Inl err \<Rightarrow> Some err | Inr ev \<Rightarrow> nackAt 2 (3 - 1) ev)"
    "sendsOf (snd (sendEvents sdk0 adapter0 (nackAt 2) (map event0 [10, 11, 12, 13, 14]) []))
            = sendsOf [] @ concat (map (sentOf sdk0 adapter0) (take 3 (map event0 [10, 11, 12, 13, 14])))"
    by blast+
  show ?thesis unfolding r
    by (simp add: convert_def sentOf_def sdk0_def encode0_def adapter0_def nackAt_def withData_def envelope_def
        getEventDetails_def event0_def show_int_def show_nat.simps digit_def Let_def)
qed

text \<open>
  C10 (the panic of the poll loop is unreachable). For a batch that is not empty,
  \<open>sendEvents\<close> returns a count of at least 1 or an error that is not \<open>nil\<close>; no
  iteration of the loop panics and no run of the loop ends in a panic, whatever the
  answers of the collaborators are.
\<close>

theorem dispatch_progress:
  "(events \<noteq> [] \<longrightarrow>
      1 \<le> fst (fst (sendEvents sd a sink events tr)) \<or> snd (fst (sendEvents sd a sink events tr)) \<noteq> None)
   \<and> fst (iteration sd a ctx i st) \<noteq> Panic m
   \<and> fst (readEvents_loop sd a ctx script st) \<noteq> Panicked m"
  using sendEvents_nonempty [of events sd a sink tr] iteration_no_panic [of sd a ctx i st m]
    readEvents_loop_no_panic [of sd a ctx script st m]
  by blast

theorem dispatch_progress_witness:
  "[event0 10] \<noteq> []
   \<and> (1 \<le> fst (fst (sendEvents sdk0 adapter0 (nackAt 0) [event0 10] []))
      \<or> snd (fst (sendEvents sdk0 adapter0 (nackAt 0) [event0 10] [])) \<noteq> None)
   \<and> fst (readEvents_loop sdk0 adapter0 ctx0 [poll [event0 10] (nackAt 0)] (state_init []))
      \<noteq> Panicked ''we should never get here''"
  using dispatch_progress [of "[event0 10]" sdk0 adapter0 "nackAt 0" "[]" ctx0 idle "state_init []"
      "''we should never get here''" "[poll [event0 10] (nackAt 0)]"]
  by simp


section \<open>Staging the checkpoint\<close>

text \<open>
  C1 (checkpoint staging). In an iteration that polls a batch which is not empty,
  let \<open>n\<close> be the count that \<open>sendEvents\<close> returns. If \<open>n = 0\<close>, the staged checkpoint
  is the one staged before the batch. If \<open>n > 0\<close>, the event at position \<open>n\<close> of the
  batch was converted and acknowledged by the sink, and once \<open>KVStore.Set\<close> has returned
  without error the staged checkpoint carries the key and the creation time of that
  event; if \<open>KVStore.Set\<close> fails, nothing new is staged.
\<close>

theorem checkpoint_staging:
  assumes sel: "selectCase ctx st i = CaseDefault"
    and rn: "readNext i = (events, None)" and ne: "events \<noteq> []"
    and n: "n = fst (fst (sendEvents sd a (send i) events []))"
    and st': "st' = snd (iteration sd a ctx i st)"
  shows "(n = 0 \<longrightarrow> staged (calls st') = staged (calls st))
     \<and> (0 < n \<longrightarrow> n \<le> length events
          \<and> delivered sd a (send i) (n - 1) (events ! (n - 1))
          \<and> (kvSet i = None \<longrightarrow>
                map_option LastEventKey (staged (calls st')) = Some (Key (events ! (n - 1)))
              \<and> map_option LastEventKeyTimestamp (staged (calls st'))
                  = Some (CreatedTime (events ! (n - 1))))
          \<and> (kvSet i \<noteq> None \<longrightarrow> staged (calls st') = staged (calls st)))"
proof -
  let ?tr0 = "calls st @ [ReadNextEvents maxEventsBatch events None, Log Debug ''got events'']"
  have "fst (fst (sendEvents sd a (send i) events ?tr0)) = n"
    using n sendEvents_loop_count_tr [of sd a "send i" events 0 ?tr0 "[]"]
    by (simp add: sendEvents_def)
  then have "sendEvents sd a (send i) events ?tr0
      = ((n, snd (fst (sendEvents sd a (send i) events ?tr0))), snd (sendEvents sd a (send i) events ?tr0))"
    by (simp add: prod_eq_iff)
  then obtain err tr where se: "sendEvents sd a (send i) events ?tr0 = ((n, err), tr)"
    by blast
  from sendEvents_loop_calls [of sd a "send i" events 0 ?tr0] se
  obtain xs where tr: "tr = ?tr0 @ xs" and q: "\<forall>c\<in>set xs. quiet c"
    by (auto simp: sendEvents_def)
  have s0: "staged tr = staged (calls st)"
    using staged_quiet [of "[ReadNextEvents maxEventsBatch events None, Log Debug ''got events''] @ xs" "calls st"] q
    by (simp add: tr quiet_def)
  have it: "iteration sd a ctx i st = pollCase sd a i st"
    using sel by (simp add: iteration_def)
  note pc = pollCase_batch [OF rn ne se]
  have le: "n \<le> length events"
    using sendEvents_le [of sd a "send i" events "[]"] n by simp
  have dl: "0 < n \<Longrightarrow> delivered sd a (send i) (n - 1) (events ! (n - 1))"
    using sendEvents_loop_acked [of "n - 1" sd a "send i" events 0 "[]"] n
    by (simp add: sendEvents_def)
  show ?thesis
  proof (cases "n = 0")
    case True
    with pc it st' s0 show ?thesis
      by (simp add: staged_snoc)
  next
    case False
    show ?thesis
    proof (cases "kvSet i")
      case None
      with False pc it st' le dl show ?thesis
        by (simp add: Let_def staged_snoc [of "tr @ [Log Error ''send events'']", simplified] 
            staged_snoc [of tr])
    next
      case (Some e)
      with False pc it st' le dl s0 show ?thesis
        by (simp add: Let_def staged_snoc [of "tr @ [Log Error ''send events'']", simplified] 
            staged_snoc [of tr])
    qed
  qed
qed


text \<open>
  The batch of five events whose third event is rejected: the staged checkpoint is at
  the second event, with key 11.
\<close>

theorem checkpoint_staging_witness:
  "selectCase ctx0 (state_init []) (poll (map event0 [10, 11, 12, 13, 14]) (nackAt 2)) = CaseDefault
   \<and> fst (fst (sendEvents sdk0 adapter0 (nackAt 2) (map event0 [10, 11, 12, 13, 14]) [])) = 2
   \<and> map_option LastEventKey (staged (calls (snd (iteration sdk0 adapter0 ctx0
         (poll (map event0 [10, 11, 12, 13, 14]) (nackAt 2)) (state_init [])))))
      = Some 11"
proof -
  let ?b = "map event0 [10, 11, 12, 13, 14]"
  let ?i = "poll ?b (nackAt 2)"
  have sel: "selectCase ctx0 (state_init []) ?i = CaseDefault"
    by (simp add: selectCase_def Done_def ctx0_def poll_simps)
  have rn: "readNext ?i = (?b, None)" by (simp add: poll_simps)
  have ne: "?b \<noteq> []" by simp
  have n: "2 = fst (fst (sendEvents sdk0 adapter0 (send ?i) ?b []))"
    by (simp add: poll_simps sendEvents_def sdk0_def encode0_def adapter0_def nackAt_def Let_def)
  from checkpoint_staging [OF sel rn ne n refl]
  have "map_option LastEventKey (staged (calls (snd (iteration sdk0 adapter0 ctx0 ?i (state_init [])))))
      = Some (Key (?b ! (2 - 1)))"
    by (simp add: poll_simps)
  with sel n show ?thesis by (simp add: event0_def poll_simps)
qed


section \<open>Saving the checkpoint on the ticker\<close>

lemma firing_select: "firing ctx i \<Longrightarrow> selectCase ctx st i = CaseTick"
  by (auto simp add: firing_def selectCase_def Done_def)

lemma tickCase_effect:
  "saves (calls (snd (tickCase i st)))
     = saves (calls st) + (if flushDue st \<and> snd (kvGet i) = None then 1 else 0)
   \<and> lastEvent (snd (tickCase i st)) = lastEvent st
   \<and> (fst (tickCase i st) = Continue \<longrightarrow> \<not> flushDue (snd (tickCase i st)))"
  by (simp add: tickCase_def flushDue_def Let_def logc_def called_def saves_def
      split: option.splits)

lemma pollCase_undelivered:
  assumes "undelivered sd a i"
  shows "saves (calls (snd (pollCase sd a i st))) = saves (calls st)
   \<and> lastEvent (snd (pollCase sd a i st)) = lastEvent st
   \<and> lastCheckpointEventKey (snd (pollCase sd a i st)) = lastCheckpointEventKey st"
proof (cases "snd (readNext i)")
  case (Some e)
  then show ?thesis
    by (simp add: pollCase_def Let_def called_def saves_def)
next
  case None
  show ?thesis
  proof (cases "fst (readNext i) = []")
    case True
    with None show ?thesis
      by (simp add: pollCase_def Let_def called_def logc_def saves_def)
  next
    case False
    let ?ev = "fst (readNext i)"
    let ?tr0 = "calls st @ [ReadNextEvents maxEventsBatch ?ev None, Log Debug ''got events'']"
    from assms None have "fst (fst (sendEvents sd a (send i) ?ev [])) = 0"
      by (simp add: undelivered_def)
    then have "fst (fst (sendEvents sd a (send i) ?ev ?tr0)) = 0"
      using sendEvents_loop_count_tr [of sd a "send i" ?ev 0 ?tr0 "[]"]
      by (simp add: sendEvents_def)
    then have "sendEvents sd a (send i) ?ev ?tr0
      = ((0, snd (fst (sendEvents sd a (send i) ?ev ?tr0))), snd (sendEvents sd a (send i) ?ev ?tr0))"
      by (simp add: prod_eq_iff)
    then obtain err tr where se: "sendEvents sd a (send i) ?ev ?tr0 = ((0, err), tr)"
      by blast
    from sendEvents_loop_calls [of sd a "send i" ?ev 0 ?tr0] se
    obtain xs where tr: "tr = ?tr0 @ xs" and q: "\<forall>c\<in>set xs. quiet c"
      by (auto simp: sendEvents_def)
    have rn: "readNext i = (?ev, None)" using None by (simp add: prod_eq_iff)
    have sv: "saves tr = saves (calls st)"
      using saves_quiet [OF q] by (simp add: tr saves_append) (simp add: saves_def)
    from pollCase_batch [OF rn False se] sv show ?thesis
      by (simp add: saves_append) (simp add: saves_def)
  qed
qed

lemma iteration_undelivered:
  assumes "\<not> tickReady i" and "undelivered sd a i"
  shows "saves (calls (snd (iteration sd a ctx i st))) = saves (calls st)
   \<and> flushDue (snd (iteration sd a ctx i st)) = flushDue st"
proof -
  from assms(1) have "selectCase ctx st i = CaseDone \<or> selectCase ctx st i = CaseDefault"
    by (simp add: selectCase_def)
  then show ?thesis
  proof
    assume "selectCase ctx st i = CaseDone"
    then have "iteration sd a ctx i st = (Return (ctxErr ctx), st)"
      by (simp add: iteration_def)
    then show ?thesis by simp
  next
    assume "selectCase ctx st i = CaseDefault"
    then have "iteration sd a ctx i st = pollCase sd a i st"
      by (simp add: iteration_def)
    with pollCase_undelivered [OF assms(2), of st] show ?thesis
      by (simp add: flushDue_def cong: option.case_cong)
  qed
qed

lemma readEvents_loop_append:
  "readEvents_loop sd a ctx (xs @ ys) st =
     (case readEvents_loop sd a ctx xs st of
        (Running, st') \<Rightarrow> readEvents_loop sd a ctx ys st'
      | (r, st') \<Rightarrow> (r, st'))"
proof (induction xs arbitrary: st)
  case Nil
  then show ?case by simp
next
  case (Cons i xs)
  obtain r st' where it: "iteration sd a ctx i st = (r, st')"
    by (cases "iteration sd a ctx i st")
  with Cons.IH [of st'] show ?case by (cases r) simp_all
qed

lemma readEvents_loop_undelivered:
  assumes "\<forall>j\<in>set mid. \<not> tickReady j \<and> undelivered sd a j"
  shows "saves (calls (snd (readEvents_loop sd a ctx mid st))) = saves (calls st)
   \<and> flushDue (snd (readEvents_loop sd a ctx mid st)) = flushDue st"
  using assms
proof (induction mid arbitrary: st)
  case Nil
  then show ?case by simp
next
  case (Cons i mid)
  obtain r st' where it: "iteration sd a ctx i st = (r, st')"
    by (cases "iteration sd a ctx i st")
  from Cons.prems have i: "\<not> tickReady i" "undelivered sd a i" by simp_all
  from iteration_undelivered [OF i, of ctx st] it
  have e: "saves (calls st') = saves (calls st)" "flushDue st' = flushDue st" by simp_all
  from Cons.prems have "\<forall>j\<in>set mid. \<not> tickReady j \<and> undelivered sd a j" by simp
  from Cons.IH [OF this, of st'] it e show ?case by (cases r) simp_all
qed


lemmas model_defs = readEvents_def state_init_def bOff_init_def iteration_def selectCase_def
  Done_def tickCase_def pollCase_def sendEvents_def Let_def logc_def called_def
  ctx0_def idle_def tick_def poll_def sdk0_def encode0_def adapter0_def nackAt_def
  Duration_def ForAttempt_def Reset_def Second_def maxEventsBatch_def


text \<open>
  C5 (flush elision), as the claim states it, fails: when nothing has been delivered
  since the loop began, two firings of the ticker in a row save nothing, not once.
\<close>

theorem flush_elision_counterexample:
  "firing ctx0 tick
   \<and> fst (readEvents sdk0 adapter0 ctx0 [tick, tick] []) = Running
   \<and> saves (calls (snd (readEvents sdk0 adapter0 ctx0 [tick, tick] []))) = 0"
  by (simp add: firing_def model_defs saves_def)


text \<open>
  C5, amended. Take two firings of the ticker that the \<open>select\<close> serves, with only polls
  that deliver nothing between them. Across the two firings \<open>KVStore.Save\<close> is called
  at most once, never twice: once when, at the first firing, an event has been
  delivered whose key differs from \<open>lastCheckpointEventKey\<close> (the key recorded at the
  last save, 0 before the first save) and the \<open>KVStore.Get\<close> before the save returns no
  error; not at all otherwise. The same condition decides whether one firing saves.
\<close>

theorem flush_elision:
  assumes f1: "firing ctx i1" and f2: "firing ctx i2"
    and mid: "\<forall>j\<in>set mid. \<not> tickReady j \<and> undelivered sd a j"
  shows "saves (calls (snd (readEvents_loop sd a ctx (i1 # mid @ [i2]) st)))
      = saves (calls st) + (if flushDue st \<and> snd (kvGet i1) = None then 1 else 0)
    \<and> saves (calls (snd (iteration sd a ctx i1 st)))
      = saves (calls st) + (if flushDue st \<and> snd (kvGet i1) = None then 1 else 0)"
proof -
  let ?k = "if flushDue st \<and> snd (kvGet i1) = None then 1 else (0::nat)"
  have it1: "iteration sd a ctx i1 st = tickCase i1 st"
    using firing_select [OF f1] by (simp add: iteration_def)
  obtain r1 st1 where t1: "tickCase i1 st = (r1, st1)" by (cases "tickCase i1 st")
  from tickCase_effect [of i1 st] t1
  have s1: "saves (calls st1) = saves (calls st) + ?k" and d1: "r1 = Continue \<Longrightarrow> \<not> flushDue st1"
    by simp_all
  have second: "saves (calls (snd (iteration sd a ctx i1 st))) = saves (calls st) + ?k"
    using it1 t1 s1 by simp
  have first: "saves (calls (snd (readEvents_loop sd a ctx (i1 # mid @ [i2]) st)))
      = saves (calls st) + ?k"
  proof (cases r1)
    case Continue
    obtain o2 st2 where m: "readEvents_loop sd a ctx mid st1 = (o2, st2)"
      by (cases "readEvents_loop sd a ctx mid st1")
    from readEvents_loop_undelivered [OF mid, of ctx st1] m d1 [OF Continue]
    have s2: "saves (calls st2) = saves (calls st1)" and d2: "\<not> flushDue st2" by simp_all
    have it2: "iteration sd a ctx i2 st2 = tickCase i2 st2"
      using firing_select [OF f2] by (simp add: iteration_def)
    from tickCase_effect [of i2 st2] d2
    have s3: "saves (calls (snd (tickCase i2 st2))) = saves (calls st2)" by simp
    have "saves (calls (snd (readEvents_loop sd a ctx (mid @ [i2]) st1))) = saves (calls st1)"
    proof (cases o2)
      case Running
      obtain r3 st3 where t3: "tickCase i2 st2 = (r3, st3)" by (cases "tickCase i2 st2")
      with s3 s2 have "saves (calls st3) = saves (calls st1)" by simp
      with Running m it2 t3 show ?thesis
        by (cases r3) (simp_all add: readEvents_loop_append)
    next
      case (Returned e)
      with m s2 show ?thesis by (simp add: readEvents_loop_append)
    next
      case (Panicked p)
      with m s2 show ?thesis by (simp add: readEvents_loop_append)
    qed
    with Continue it1 t1 s1 show ?thesis by simp
  next
    case (Return e)
    with it1 t1 s1 show ?thesis by simp
  next
    case (Panic p)
    with it1 t1 s1 show ?thesis by simp
  qed
  from first second show ?thesis by simp
qed

text \<open>
  After a batch of three delivered events: a firing, an empty poll, a firing. The store
  is saved once.
\<close>

theorem flush_elision_witness:
  "saves (calls (snd (readEvents_loop sdk0 adapter0 ctx0 (tick # [idle] @ [tick])
      (snd (iteration sdk0 adapter0 ctx0 (poll (map event0 [10, 11, 12]) (\<lambda>i ev. None))
         (state_init []))))))
    = 1"
proof -
  let ?st = "snd (iteration sdk0 adapter0 ctx0 (poll (map event0 [10, 11, 12]) (\<lambda>i ev. None))
         (state_init []))"
  have f: "firing ctx0 tick" by (simp add: firing_def tick_def idle_def ctx0_def)
  have m: "\<forall>j\<in>set [idle]. \<not> tickReady j \<and> undelivered sdk0 adapter0 j"
    by (simp add: undelivered_def idle_def sendEvents_def)
  have s: "saves (calls ?st) = 0" "flushDue ?st" "snd (kvGet tick) = None"
    by (simp_all add: model_defs saves_def flushDue_def event0_def)
  from flush_elision [OF f f m, of ?st] s show ?thesis by simp
qed

section \<open>The backoff of the poll loop\<close>

lemma ForAttempt_init:
  "sint (ForAttempt (bOff_init\<lparr>attempt := k\<rparr>) n) = backoff_ns n"
proof -
  have "0 \<le> backoff_ns n" "backoff_ns n \<le> 5000000000"
    by (simp_all add: backoff_ns_def)
  then have r: "- (2 ^ 63) \<le> backoff_ns n" "backoff_ns n < 2 ^ 63" by simp_all
  have "ForAttempt (bOff_init\<lparr>attempt := k\<rparr>) n = word_of_int (backoff_ns n)"
    by (simp add: ForAttempt_def bOff_init_def Second_def backoff_ns_def)
  moreover have "sint (word_of_int (backoff_ns n) :: 64 word) = backoff_ns n"
    using r by (simp add: sint_sbintrunc' signed_take_bit_int_eq_self_iff)
  ultimately show ?thesis by simp
qed

lemma nexts_init:
  "map sint (nexts n (bOff_init\<lparr>attempt := k\<rparr>)) = map backoff_ns [k..<k + n]"
proof (induction n arbitrary: k)
  case 0
  then show ?case by simp
next
  case (Suc n)
  have "[k..<k + Suc n] = k # [Suc k..<Suc k + n]" by (simp add: upt_rec)
  with Suc [of "Suc k"] show ?case
    by (simp add: Duration_def ForAttempt_init)
qed

lemma sleeps_Cons:
  "sleeps [] = []"
  "sleeps (c # cs) = (case sleepOf c of Some d \<Rightarrow> d # sleeps cs | None \<Rightarrow> sleeps cs)"
  by (simp_all add: sleeps_def map_filter_simps split: option.splits)

lemma pollCase_empty:
  assumes "readNext i = ([], None)"
  shows "pollCase sd a i st =
    (Continue,
     st\<lparr>bOff := snd (Duration (bOff st)),
        clock := clock st + max 0 (sint (fst (Duration (bOff st)))),
        calls := calls st @ [ReadNextEvents maxEventsBatch [] None,
          Log Debug ''backing off retrieving events: no new events received'',
          Sleep (fst (Duration (bOff st)))]\<rparr>)"
  using assms by (simp add: pollCase_def Let_def called_def logc_def)


lemma rejected_batch_keeps_backoff:
  assumes sel: "selectCase ctx st i = CaseDefault"
    and rn: "readNext i = (events, None)" and ne: "events \<noteq> []"
    and n0: "fst (fst (sendEvents sd a (send i) events [])) = 0"
    and tj: "\<not> tickReady j" and rj: "readNext j = ([], None)"
    and b: "bOff st = bOff_init\<lparr>attempt := k\<rparr>"
  shows "fst (iteration sd a ctx i st) = Continue"
    and "bOff (snd (iteration sd a ctx i st)) = bOff st"
    and "fst (readEvents_loop sd a ctx [i, j] st) = Running"
    and "map sint (sleeps (calls (snd (readEvents_loop sd a ctx [i, j] st))))
            = map sint (sleeps (calls st)) @ [backoff_ns k]"
proof -
  let ?tr0 = "calls st @ [ReadNextEvents maxEventsBatch events None, Log Debug ''got events'']"
  obtain n err tr where se: "sendEvents sd a (send i) events ?tr0 = ((n, err), tr)"
    by (metis surj_pair)
  have "fst (fst (sendEvents sd a (send i) events ?tr0))
      = fst (fst (sendEvents sd a (send i) events []))"
    using sendEvents_loop_count_tr [of sd a "send i" events 0 ?tr0 "[]"]
    by (simp add: sendEvents_def)
  with n0 se have n: "n = 0" by simp
  from sendEvents_loop_calls [of sd a "send i" events 0 ?tr0] se
  obtain xs where tr: "tr = ?tr0 @ xs" and q: "\<forall>c\<in>set xs. quiet c"
    by (auto simp: sendEvents_def)
  have sl: "sleeps tr = sleeps (calls st)"
    using sleeps_quiet [OF q] by (simp add: tr sleeps_append) (simp add: sleeps_Cons)
  let ?st1 = "st\<lparr>calls := tr @ [Log Error ''send events'']\<rparr>"
  have it1: "iteration sd a ctx i st = (Continue, ?st1)"
    using pollCase_batch [OF rn ne se] n sel by (simp add: iteration_def)
  from it1 show "fst (iteration sd a ctx i st) = Continue" by simp
  from it1 show "bOff (snd (iteration sd a ctx i st)) = bOff st" by simp
  have nd: "\<not> Done ctx (clock st)"
    using sel by (auto simp add: selectCase_def split: if_splits)
  have sel2: "selectCase ctx ?st1 j = CaseDefault"
    using nd tj by (simp add: selectCase_def)
  have it2: "iteration sd a ctx j ?st1 = pollCase sd a j ?st1"
    using sel2 by (simp add: iteration_def)
  have d: "sint (fst (Duration (bOff ?st1))) = backoff_ns k"
    using b ForAttempt_init [of k k] by (simp add: Duration_def)
  have sl1: "sleeps (calls ?st1) = sleeps (calls st)"
    using sl by (simp add: sleeps_append) (simp add: sleeps_Cons)
  show "fst (readEvents_loop sd a ctx [i, j] st) = Running"
    using it1 it2 pollCase_empty [OF rj, of sd a ?st1] by simp
  have c2: "calls (snd (readEvents_loop sd a ctx [i, j] st))
      = calls ?st1 @ [ReadNextEvents maxEventsBatch [] None,
          Log Debug ''backing off retrieving events: no new events received'',
          Sleep (fst (Duration (bOff ?st1)))]"
    using it1 it2 pollCase_empty [OF rj, of sd a ?st1] by simp
  have "sleeps (calls (snd (readEvents_loop sd a ctx [i, j] st)))
      = sleeps (calls ?st1) @ [fst (Duration (bOff ?st1))]"
    unfolding c2 sleeps_append by (simp add: sleeps_Cons)
  then show "map sint (sleeps (calls (snd (readEvents_loop sd a ctx [i, j] st))))
            = map sint (sleeps (calls st)) @ [backoff_ns k]"
    unfolding sl1 using d by simp
qed

text \<open>
  C6 (backoff policy), as the claim states it, fails: after two empty polls, a poll
  that reads a batch of one event which the sink rejects does not reset the backoff,
  and the next empty poll waits four seconds.
\<close>

theorem backoff_policy_counterexample:
  "readNext (poll [event0 10] (nackAt 0)) = ([event0 10], None)
   \<and> fst (readEvents sdk0 adapter0 ctx0 [idle, idle, poll [event0 10] (nackAt 0), idle] [])
       = Running
   \<and> map sint (sleeps (calls (snd (readEvents sdk0 adapter0 ctx0
        [idle, idle, poll [event0 10] (nackAt 0), idle] []))))
       = [1000000000, 2000000000, 4000000000]"
  by (simp add: model_defs sleeps_def map_filter_simps)


text \<open>
  C6, amended. From a reset, the \<open>n\<close>-th call of \<open>Duration\<close> (counted from 0) returns
  \<open>min(5s, 1s * 2^n)\<close>: 1s, 2s, 4s, 5s, 5s and so on. The loop resets the backoff after
  a poll in which at least one event was delivered and the checkpoint was staged: the
  empty poll that follows waits one second. A poll whose batch is not empty and in
  which no event is delivered leaves the backoff as it is: after \<open>k\<close> empty polls in a
  row and such a poll, the empty poll that follows waits \<open>min(5s, 1s * 2^k)\<close>.
\<close>

theorem backoff_policy:
  "map sint (nexts n (Reset (bOff_init\<lparr>attempt := k\<rparr>))) = map backoff_ns [0..<n]
   \<and> map sint (nexts 5 (Reset (bOff_init\<lparr>attempt := k\<rparr>)))
       = [1000000000, 2000000000, 4000000000, 5000000000, 5000000000]
   \<and> (selectCase ctx st i = CaseDefault \<and> readNext i = (events, None) \<and> events \<noteq> []
        \<and> 0 < fst (fst (sendEvents sd a (send i) events [])) \<and> kvSet i = None
        \<and> \<not> tickReady j \<and> readNext j = ([], None)
        \<and> bOff st = bOff_init\<lparr>attempt := k\<rparr>
      \<longrightarrow> fst (readEvents_loop sd a ctx [i, j] st) = Running
        \<and> map sint (sleeps (calls (snd (readEvents_loop sd a ctx [i, j] st))))
            = map sint (sleeps (calls st)) @ [1000000000])
   \<and> (selectCase ctx st i = CaseDefault \<and> readNext i = (events, None) \<and> events \<noteq> []
        \<and> fst (fst (sendEvents sd a (send i) events [])) = 0
        \<and> \<not> tickReady j \<and> readNext j = ([], None)
        \<and> bOff st = bOff_init\<lparr>attempt := k\<rparr>
      \<longrightarrow> fst (iteration sd a ctx i st) = Continue
        \<and> bOff (snd (iteration sd a ctx i st)) = bOff st
        \<and> fst (readEvents_loop sd a ctx [i, j] st) = Running
        \<and> map sint (sleeps (calls (snd (readEvents_loop sd a ctx [i, j] st))))
            = map sint (sleeps (calls st)) @ [backoff_ns k])"
proof (intro conjI impI)
  have r: "Reset (bOff_init\<lparr>attempt := k\<rparr>) = bOff_init\<lparr>attempt := 0\<rparr>"
    by (simp add: Reset_def)
  show "map sint (nexts n (Reset (bOff_init\<lparr>attempt := k\<rparr>))) = map backoff_ns [0..<n]"
    unfolding r using nexts_init [of n 0] by simp
  have "map sint (nexts 5 (Reset (bOff_init\<lparr>attempt := k\<rparr>))) = map backoff_ns [0..<0 + 5]"
    unfolding r by (rule nexts_init)
  also have "\<dots> = [1000000000, 2000000000, 4000000000, 5000000000, 5000000000]"
    by (simp add: backoff_ns_def upt_rec)
  finally show "map sint (nexts 5 (Reset (bOff_init\<lparr>attempt := k\<rparr>)))
       = [1000000000, 2000000000, 4000000000, 5000000000, 5000000000]" .
next
  assume h: "selectCase ctx st i = CaseDefault \<and> readNext i = (events, None) \<and> events \<noteq> []
        \<and> 0 < fst (fst (sendEvents sd a (send i) events [])) \<and> kvSet i = None
        \<and> \<not> tickReady j \<and> readNext j = ([], None)
        \<and> bOff st = bOff_init\<lparr>attempt := k\<rparr>"
  let ?tr0 = "calls st @ [ReadNextEvents maxEventsBatch events None, Log Debug ''got events'']"
  obtain n err tr where se: "sendEvents sd a (send i) events ?tr0 = ((n, err), tr)"
    by (metis surj_pair)
  have "fst (fst (sendEvents sd a (send i) events ?tr0))
      = fst (fst (sendEvents sd a (send i) events []))"
    using sendEvents_loop_count_tr [of sd a "send i" events 0 ?tr0 "[]"]
    by (simp add: sendEvents_def)
  with h se have n: "0 < n" by simp
  from sendEvents_loop_calls [of sd a "send i" events 0 ?tr0] se
  obtain xs where tr: "tr = ?tr0 @ xs" and q: "\<forall>c\<in>set xs. quiet c"
    by (auto simp: sendEvents_def)
  have sl: "sleeps tr = sleeps (calls st)"
    using sleeps_quiet [OF q] by (simp add: tr sleeps_append) (simp add: sleeps_def map_filter_simps)
  from h have rn: "readNext i = (events, None)" and ne: "events \<noteq> []" by simp_all
  let ?le = "events ! (n - 1)"
  let ?cp = "\<lparr>VCenter = Source a, LastEventKey = Key ?le,
                  LastEventType = Type (getEventDetails ?le),
                  LastEventKeyTimestamp = CreatedTime ?le, CreatedTimestamp = timeNow i\<rparr>"
  let ?tr' = "tr @ (if err \<noteq> None then [Log Error ''send events''] else []) @ [KVSet ?cp None]"
  let ?st1 = "st\<lparr>lastEvent := Some ?le, bOff := Reset (bOff st), calls := ?tr'\<rparr>"
  have it1: "iteration sd a ctx i st = (Continue, ?st1)"
    using pollCase_batch [OF rn ne se] n h by (simp add: iteration_def Let_def)
  have nd: "\<not> Done ctx (clock st)"
    using h by (auto simp add: selectCase_def split: if_splits)
  have sel2: "selectCase ctx ?st1 j = CaseDefault"
    using nd h by (simp add: selectCase_def)
  have rj: "readNext j = ([], None)" using h by simp
  have d: "fst (Duration (bOff ?st1)) = 1000000000"
    using h by (simp add: Duration_def ForAttempt_def Reset_def bOff_init_def Second_def)
  have it2: "iteration sd a ctx j ?st1 = pollCase sd a j ?st1"
    using sel2 by (simp add: iteration_def)
  have sl1: "sleeps (calls ?st1) = sleeps (calls st)"
    using sl by (simp add: sleeps_append) (simp add: sleeps_def map_filter_simps)
  show "fst (readEvents_loop sd a ctx [i, j] st) = Running"
    using it1 it2 pollCase_empty [OF rj, of sd a ?st1] by simp
  have c2: "calls (snd (readEvents_loop sd a ctx [i, j] st))
      = calls ?st1 @ [ReadNextEvents maxEventsBatch [] None,
          Log Debug ''backing off retrieving events: no new events received'',
          Sleep (fst (Duration (bOff ?st1)))]"
    using it1 it2 pollCase_empty [OF rj, of sd a ?st1] by simp
  have "sleeps (calls (snd (readEvents_loop sd a ctx [i, j] st)))
      = sleeps (calls ?st1) @ [fst (Duration (bOff ?st1))]"
    unfolding c2 sleeps_append by (simp add: sleeps_Cons)
  then show "map sint (sleeps (calls (snd (readEvents_loop sd a ctx [i, j] st))))
            = map sint (sleeps (calls st)) @ [1000000000]"
    unfolding d sl1 by simp
next
  assume h: "selectCase ctx st i = CaseDefault \<and> readNext i = (events, None) \<and> events \<noteq> []
        \<and> fst (fst (sendEvents sd a (send i) events [])) = 0
        \<and> \<not> tickReady j \<and> readNext j = ([], None)
        \<and> bOff st = bOff_init\<lparr>attempt := k\<rparr>"
  then have sel: "selectCase ctx st i = CaseDefault"
    and rn: "readNext i = (events, None)" and ne: "events \<noteq> []"
    and n0: "fst (fst (sendEvents sd a (send i) events [])) = 0"
    and tj: "\<not> tickReady j" and rj: "readNext j = ([], None)"
    and b: "bOff st = bOff_init\<lparr>attempt := k\<rparr>"
    by blast+
  note r = rejected_batch_keeps_backoff [OF sel rn ne n0 tj rj b]
  from r(1) show "fst (iteration sd a ctx i st) = Continue" .
  from r(2) show "bOff (snd (iteration sd a ctx i st)) = bOff st" .
  from r(3) show "fst (readEvents_loop sd a ctx [i, j] st) = Running" .
  from r(4) show "map sint (sleeps (calls (snd (readEvents_loop sd a ctx [i, j] st))))
            = map sint (sleeps (calls st)) @ [backoff_ns k]" .
qed

text \<open>
  Two empty polls, then a poll that delivers one event and an empty poll; two empty
  polls, then a poll whose only event the sink rejects and an empty poll.
\<close>

theorem backoff_policy_witness:
  "map sint (sleeps (calls (snd (readEvents_loop sdk0 adapter0 ctx0
      [poll [event0 10] (\<lambda>i ev. None), idle]
      (snd (readEvents sdk0 adapter0 ctx0 [idle, idle] []))))))
    = [1000000000, 2000000000, 1000000000]
   \<and> map sint (sleeps (calls (snd (readEvents_loop sdk0 adapter0 ctx0
      [poll [event0 10] (nackAt 0), idle]
      (snd (readEvents sdk0 adapter0 ctx0 [idle, idle] []))))))
    = [1000000000, 2000000000, 4000000000]"
proof -
  let ?st = "snd (readEvents sdk0 adapter0 ctx0 [idle, idle] [])"
  let ?i = "poll [event0 10] (\<lambda>i ev. None)"
  let ?r = "poll [event0 10] (nackAt 0)"
  have st: "bOff ?st = bOff_init\<lparr>attempt := 2\<rparr>"
    "map sint (sleeps (calls ?st)) = [1000000000, 2000000000]"
    by (simp_all add: model_defs sleeps_def map_filter_simps)
  have h: "selectCase ctx0 ?st ?i = CaseDefault \<and> readNext ?i = ([event0 10], None)
      \<and> [event0 10] \<noteq> []
      \<and> 0 < fst (fst (sendEvents sdk0 adapter0 (send ?i) [event0 10] [])) \<and> kvSet ?i = None
      \<and> \<not> tickReady idle \<and> readNext idle = ([], None)"
    by (simp add: selectCase_def Done_def ctx0_def poll_simps sendEvents_def sdk0_def encode0_def
        adapter0_def Let_def idle_def)
  have g: "selectCase ctx0 ?st ?r = CaseDefault \<and> readNext ?r = ([event0 10], None)
      \<and> [event0 10] \<noteq> []
      \<and> fst (fst (sendEvents sdk0 adapter0 (send ?r) [event0 10] [])) = 0
      \<and> \<not> tickReady idle \<and> readNext idle = ([], None)"
    by (simp add: selectCase_def Done_def ctx0_def poll_simps sendEvents_def sdk0_def encode0_def
        adapter0_def nackAt_def Let_def idle_def)
  from backoff_policy [of 0 2 ctx0 ?st ?i "[event0 10]" sdk0 adapter0 idle] h st
  have r1: "map sint (sleeps (calls (snd (readEvents_loop sdk0 adapter0 ctx0 [?i, idle] ?st))))
      = [1000000000, 2000000000, 1000000000]"
    by simp
  from backoff_policy [of 0 2 ctx0 ?st ?r "[event0 10]" sdk0 adapter0 idle] g st
  have r2: "map sint (sleeps (calls (snd (readEvents_loop sdk0 adapter0 ctx0 [?r, idle] ?st))))
      = [1000000000, 2000000000, 4000000000]"
    by (simp add: backoff_ns_def)
  from r1 r2 show ?thesis by blast
qed

section \<open>Failures of the key-value store\<close>

lemma tickCase_get_error:
  assumes "flushDue st" and "snd (kvGet i) = Some e"
  shows "tickCase i st =
    (Return (Wrap ''retrieve current checkpoint'' e),
     st\<lparr>calls := calls st @ [KVGet (fst (kvGet i)) (Some e)]\<rparr>)"
proof -
  from assms(1) obtain le where "lastEvent st = Some le" "lastCheckpointEventKey st \<noteq> Key le"
    by (auto simp add: flushDue_def split: option.splits)
  with assms(2) show ?thesis by (simp add: tickCase_def Let_def called_def)
qed

lemma tickCase_save_error:
  assumes "flushDue st" and "snd (kvGet i) = None" and "kvSave i = Some e"
  shows "tickCase i st =
    (Return (Wrap ''save checkpoint'' e),
     st\<lparr>calls := calls st @ [KVGet (fst (kvGet i)) None, Log Debug ''creating checkpoint'',
        KVSave (Some e)]\<rparr>)"
proof -
  from assms(1) obtain le where "lastEvent st = Some le" "lastCheckpointEventKey st \<noteq> Key le"
    by (auto simp add: flushDue_def split: option.splits)
  with assms(2,3) show ?thesis by (simp add: tickCase_def Let_def called_def logc_def)
qed

lemma pollCase_set_error:
  assumes rn: "readNext i = (events, None)" and ne: "events \<noteq> []"
    and n: "0 < fst (fst (sendEvents sd a (send i) events []))"
    and e: "kvSet i = Some e"
  shows "fst (pollCase sd a i st) = Return (Wrap ''set checkpoint'' e)"
proof -
  let ?tr0 = "calls st @ [ReadNextEvents maxEventsBatch events None, Log Debug ''got events'']"
  obtain n err tr where se: "sendEvents sd a (send i) events ?tr0 = ((n, err), tr)"
    by (metis surj_pair)
  have "fst (fst (sendEvents sd a (send i) events ?tr0))
      = fst (fst (sendEvents sd a (send i) events []))"
    using sendEvents_loop_count_tr [of sd a "send i" events 0 ?tr0 "[]"]
    by (simp add: sendEvents_def)
  with n se have "0 < n" by simp
  with pollCase_batch [OF rn ne se] e show ?thesis by (simp add: Let_def)
qed

lemma tickCase_calls:
  "fst (tickCase i (st\<lparr>calls := tr\<rparr>)) = fst (tickCase i st)
   \<and> (snd (tickCase i (st\<lparr>calls := tr\<rparr>)))\<lparr>calls := []\<rparr> = (snd (tickCase i st))\<lparr>calls := []\<rparr>"
  by (simp add: tickCase_def Let_def called_def logc_def split: option.splits)

lemma pollCase_calls:
  "fst (pollCase sd a i (st\<lparr>calls := tr\<rparr>)) = fst (pollCase sd a i st)
   \<and> (snd (pollCase sd a i (st\<lparr>calls := tr\<rparr>)))\<lparr>calls := []\<rparr>
      = (snd (pollCase sd a i st))\<lparr>calls := []\<rparr>"
proof (cases "snd (readNext i)")
  case (Some e)
  then show ?thesis by (simp add: pollCase_def Let_def called_def)
next
  case None
  show ?thesis
  proof (cases "fst (readNext i) = []")
    case True
    with None have "readNext i = ([], None)" by (simp add: prod_eq_iff)
    then show ?thesis by (simp add: pollCase_empty)
  next
    case False
    let ?ev = "fst (readNext i)"
    let ?t1 = "calls (st\<lparr>calls := tr\<rparr>) @ [ReadNextEvents maxEventsBatch ?ev None, Log Debug ''got events'']"
    let ?t2 = "calls st @ [ReadNextEvents maxEventsBatch ?ev None, Log Debug ''got events'']"
    have rn: "readNext i = (?ev, None)" using None by (simp add: prod_eq_iff)
    obtain n err tr1 where s1: "sendEvents sd a (send i) ?ev ?t1 = ((n, err), tr1)"
      by (metis surj_pair)
    have "fst (sendEvents sd a (send i) ?ev ?t2) = fst (sendEvents sd a (send i) ?ev ?t1)"
      using sendEvents_loop_count_tr [of sd a "send i" ?ev 0 ?t2 ?t1]
      by (simp add: sendEvents_def)
    with s1 have "sendEvents sd a (send i) ?ev ?t2 = ((n, err), snd (sendEvents sd a (send i) ?ev ?t2))"
      by (simp add: prod_eq_iff)
    then obtain tr2 where s2: "sendEvents sd a (send i) ?ev ?t2 = ((n, err), tr2)"
      by blast
    show ?thesis
      unfolding pollCase_batch [OF rn False s1] pollCase_batch [OF rn False s2]
      by (simp add: Let_def split: option.splits)
  qed
qed

lemma iteration_calls:
  "fst (iteration sd a ctx i (st\<lparr>calls := tr\<rparr>)) = fst (iteration sd a ctx i st)
   \<and> (snd (iteration sd a ctx i (st\<lparr>calls := tr\<rparr>)))\<lparr>calls := []\<rparr>
      = (snd (iteration sd a ctx i st))\<lparr>calls := []\<rparr>"
proof -
  have s: "selectCase ctx (st\<lparr>calls := tr\<rparr>) i = selectCase ctx st i"
    by (simp add: selectCase_def)
  show ?thesis
    unfolding iteration_def s
    by (cases "selectCase ctx st i") (simp_all add: tickCase_calls pollCase_calls)
qed

lemma readEvents_loop_calls:
  "fst (readEvents_loop sd a ctx script (st\<lparr>calls := tr\<rparr>)) = fst (readEvents_loop sd a ctx script st)"
proof (induction script arbitrary: st tr)
  case Nil
  then show ?case by simp
next
  case (Cons i script)
  obtain r st1 where i1: "iteration sd a ctx i st = (r, st1)"
    by (cases "iteration sd a ctx i st")
  obtain r' st2 where i2: "iteration sd a ctx i (st\<lparr>calls := tr\<rparr>) = (r', st2)"
    by (cases "iteration sd a ctx i (st\<lparr>calls := tr\<rparr>)")
  from iteration_calls [of sd a ctx i tr st] i1 i2
  have r: "r' = r" and e: "st2\<lparr>calls := []\<rparr> = st1\<lparr>calls := []\<rparr>" by simp_all
  have "st2 = (st2\<lparr>calls := []\<rparr>)\<lparr>calls := calls st2\<rparr>" by simp
  also have "\<dots> = st1\<lparr>calls := calls st2\<rparr>" unfolding e by simp
  finally have "st2 = st1\<lparr>calls := calls st2\<rparr>" .
  then have "fst (readEvents_loop sd a ctx script st2) = fst (readEvents_loop sd a ctx script st1)"
    using Cons.IH [of "calls st2" st1] by simp
  with i1 i2 r show ?case by (cases r) simp_all
qed

lemma run_first_get:
  "fst (run sd a ctx (s\<lparr>firstGet := (cp, Some e)\<rparr>) script)
     = fst (run sd a ctx (s\<lparr>firstGet := (cp, None)\<rparr>) script)"
proof (cases "currentTime s")
  case (Inl err)
  then show ?thesis by (simp add: run_def Let_def)
next
  case (Inr t)
  show ?thesis
  proof (cases "collector s")
    case (Some err)
    with Inr show ?thesis by (simp add: run_def Let_def)
  next
    case None
    have "\<And>tr. fst (readEvents sd a ctx script tr) = fst (readEvents sd a ctx script [])"
      using readEvents_loop_calls [of sd a ctx script _ "state_init []"]
      by (simp add: readEvents_def state_init_def)
    then have "\<And>tr tr'. fst (readEvents sd a ctx script tr) = fst (readEvents sd a ctx script tr')"
      by metis
    with Inr None show ?thesis by (simp add: run_def Let_def)
  qed
qed

lemma iteration_prefix: "\<exists>xs. calls (snd (iteration sd a ctx i st)) = calls st @ xs"
proof (cases "selectCase ctx st i")
  case CaseDone
  then show ?thesis by (simp add: iteration_def)
next
  case CaseTick
  then show ?thesis
    by (simp add: iteration_def tickCase_def Let_def logc_def called_def split: option.splits)
next
  case CaseDefault
  have "\<exists>xs. calls (snd (pollCase sd a i st)) = calls st @ xs"
  proof (cases "snd (readNext i)")
    case (Some e)
    then show ?thesis by (simp add: pollCase_def Let_def called_def)
  next
    case None
    show ?thesis
    proof (cases "fst (readNext i) = []")
      case True
      with None have "readNext i = ([], None)" by (simp add: prod_eq_iff)
      then show ?thesis by (simp add: pollCase_empty)
    next
      case False
      let ?ev = "fst (readNext i)"
      let ?tr0 = "calls st @ [ReadNextEvents maxEventsBatch ?ev None, Log Debug ''got events'']"
      have rn: "readNext i = (?ev, None)" using None by (simp add: prod_eq_iff)
      obtain n err tr where se: "sendEvents sd a (send i) ?ev ?tr0 = ((n, err), tr)"
        by (metis surj_pair)
      from sendEvents_loop_calls [of sd a "send i" ?ev 0 ?tr0] se
      obtain xs where tr: "tr = ?tr0 @ xs" by (auto simp: sendEvents_def)
      show ?thesis
        unfolding pollCase_batch [OF rn False se] tr
        by (simp add: Let_def split: option.splits)
    qed
  qed
  with CaseDefault show ?thesis by (simp add: iteration_def)
qed

lemma readEvents_loop_prefix:
  "\<exists>xs. calls (snd (readEvents_loop sd a ctx script st)) = calls st @ xs"
proof (induction script arbitrary: st)
  case Nil
  then show ?case by simp
next
  case (Cons i script)
  obtain r st1 where it: "iteration sd a ctx i st = (r, st1)"
    by (cases "iteration sd a ctx i st")
  from iteration_prefix [of sd a ctx i st] it obtain xs where x: "calls st1 = calls st @ xs"
    by auto
  from Cons.IH [of st1] obtain ys
    where y: "calls (snd (readEvents_loop sd a ctx script st1)) = calls st1 @ ys" by blast
  from it x y show ?case by (cases r) simp_all
qed

lemma readEvents_prefix:
  "\<exists>xs. calls (snd (readEvents sd a ctx script tr)) = tr @ xs"
  using readEvents_loop_prefix [of sd a ctx script "state_init tr"]
  by (simp add: readEvents_def state_init_def)

lemma run_failed_get_calls:
  "\<exists>xs. calls (snd (run sd a ctx (s\<lparr>firstGet := (cp, Some e)\<rparr>) script))
     = [KVGet cp (Some e), Log Warn ''could not retrieve checkpoint configuration'',
        GetCurrentTime (currentTime s)] @ xs"
proof (cases "currentTime s")
  case (Inl err)
  then show ?thesis by (simp add: run_def Let_def state_init_def)
next
  case (Inr t)
  show ?thesis
  proof (cases "collector s")
    case (Some err)
    with Inr show ?thesis by (simp add: run_def Let_def state_init_def)
  next
    case None
    let ?b = "getBeginFromCheckpoint t cp (MaxAge (CpConfig a))"
    let ?tr = "[KVGet cp (Some e), Log Warn ''could not retrieve checkpoint configuration'',
        GetCurrentTime (Inr t)] @ map (\<lambda>(l, m). Log l m) (snd ?b)
        @ [NewHistoryCollector (fst ?b) None]"
    from readEvents_prefix [of sd a ctx script ?tr] obtain xs
      where "calls (snd (readEvents sd a ctx script ?tr)) = ?tr @ xs" by blast
    with Inr None show ?thesis by (simp add: run_def Let_def)
  qed
qed

lemma run_failed_get_loop:
  assumes "currentTime s = Inr t" and "collector s = None"
  shows "run sd a ctx (s\<lparr>firstGet := (cp, Some e)\<rparr>) script
     = readEvents sd a ctx script
         ([KVGet cp (Some e), Log Warn ''could not retrieve checkpoint configuration'',
           GetCurrentTime (Inr t)]
          @ map (\<lambda>(l, m). Log l m) (snd (getBeginFromCheckpoint t cp (MaxAge (CpConfig a))))
          @ [NewHistoryCollector (fst (getBeginFromCheckpoint t cp (MaxAge (CpConfig a)))) None])"
  using assms by (simp add: run_def Let_def)

lemma pollCase_set_error_full:
  assumes rn: "readNext i = (events, None)" and ne: "events \<noteq> []"
    and n: "0 < fst (fst (sendEvents sd a (send i) events []))"
    and e: "kvSet i = Some e"
  shows "pollCase sd a i st =
    (let sent = sendEvents sd a (send i) events
           (calls st @ [ReadNextEvents maxEventsBatch events None, Log Debug ''got events'']);
         le = events ! (fst (fst sent) - 1);
         cp = \<lparr>VCenter = Source a, LastEventKey = Key le,
               LastEventType = Type (getEventDetails le),
               LastEventKeyTimestamp = CreatedTime le, CreatedTimestamp = timeNow i\<rparr>
     in (Return (Wrap ''set checkpoint'' e),
         st\<lparr>lastEvent := Some le,
            calls := snd sent
              @ (if snd (fst sent) \<noteq> None then [Log Error ''send events''] else [])
              @ [KVSet cp (Some e)]\<rparr>))"
proof -
  let ?tr0 = "calls st @ [ReadNextEvents maxEventsBatch events None, Log Debug ''got events'']"
  obtain n err tr where se: "sendEvents sd a (send i) events ?tr0 = ((n, err), tr)"
    by (metis surj_pair)
  have "fst (fst (sendEvents sd a (send i) events ?tr0))
      = fst (fst (sendEvents sd a (send i) events []))"
    using sendEvents_loop_count_tr [of sd a "send i" events 0 ?tr0 "[]"]
    by (simp add: sendEvents_def)
  with n se have "0 < n" by simp
  with pollCase_batch [OF rn ne se] e se show ?thesis by (simp add: Let_def)
qed

text \<open>
  C7 (failures of the store), as the claim states it, fails for the first
  \<open>KVStore.Get\<close> of \<open>run\<close>: its error is logged as a warning and the run goes on, asks
  vCenter for the time, creates the collector and polls.
\<close>

theorem store_failure_counterexample:
  "fst (run sdk0 adapter0 ctx0
      (startup0\<lparr>firstGet := (zero_checkpoint, Some (Err ''key does not exist''))\<rparr>) [idle])
     = Running
   \<and> calls (snd (run sdk0 adapter0 ctx0
      (startup0\<lparr>firstGet := (zero_checkpoint, Some (Err ''key does not exist''))\<rparr>) [idle]))
     = [KVGet zero_checkpoint (Some (Err ''key does not exist'')),
        Log Warn ''could not retrieve checkpoint configuration'',
        GetCurrentTime (Inr 63800000000500000000),
        Log Info ''no valid checkpoint found'',
        Log Info ''setting begin of event stream'',
        NewHistoryCollector 63800000000500000000 None,
        ReadNextEvents 100 [] None,
        Log Debug ''backing off retrieving events: no new events received'',
        Sleep 1000000000]"
  by (simp add: run_def startup0_def getBeginFromCheckpoint_def IsZero_def zero_checkpoint_def
      model_defs)


text \<open>
  C7, amended. In the loop, an error of \<open>KVStore.Get\<close> or of \<open>KVStore.Save\<close> in the
  ticker case and an error of \<open>KVStore.Set\<close> after a batch end the loop in that
  iteration: \<open>readEvents\<close> returns the error, wrapped, the failed call is the last call
  made, and the iterations that would follow are not run. The error of the first
  \<open>KVStore.Get\<close> of \<open>run\<close> is only logged: the warning is the next thing the run does,
  then it asks vCenter for the time; when that and the creation of the collector
  succeed, the loop runs on a collector that begins where \<open>getBeginFromCheckpoint\<close> says
  for the checkpoint that the failed \<open>Get\<close> left. The outcome of the run is the one of a
  run whose first \<open>KVStore.Get\<close> leaves the same checkpoint and returns no error.
\<close>

theorem store_failure:
  "(selectCase ctx st i = CaseTick \<and> flushDue st \<and> snd (kvGet i) = Some e
      \<longrightarrow> readEvents_loop sd a ctx (i # rest) st
          = (Returned (Wrap ''retrieve current checkpoint'' e),
             st\<lparr>calls := calls st @ [KVGet (fst (kvGet i)) (Some e)]\<rparr>))
   \<and> (selectCase ctx st i = CaseTick \<and> flushDue st \<and> snd (kvGet i) = None \<and> kvSave i = Some e
      \<longrightarrow> readEvents_loop sd a ctx (i # rest) st
          = (Returned (Wrap ''save checkpoint'' e),
             st\<lparr>calls := calls st @ [KVGet (fst (kvGet i)) None,
                Log Debug ''creating checkpoint'', KVSave (Some e)]\<rparr>))
   \<and> (selectCase ctx st i = CaseDefault \<and> readNext i = (events, None) \<and> events \<noteq> []
        \<and> 0 < fst (fst (sendEvents sd a (send i) events [])) \<and> kvSet i = Some e
      \<longrightarrow> readEvents_loop sd a ctx (i # rest) st
          = (let sent = sendEvents sd a (send i) events
                   (calls st @ [ReadNextEvents maxEventsBatch events None, Log Debug ''got events'']);
                 le = events ! (fst (fst sent) - 1);
                 cp = \<lparr>VCenter = Source a, LastEventKey = Key le,
                       LastEventType = Type (getEventDetails le),
                       LastEventKeyTimestamp = CreatedTime le, CreatedTimestamp = timeNow i\<rparr>
             in (Returned (Wrap ''set checkpoint'' e),
                 st\<lparr>lastEvent := Some le,
                    calls := snd sent
                      @ (if snd (fst sent) \<noteq> None then [Log Error ''send events''] else [])
                      @ [KVSet cp (Some e)]\<rparr>)))
   \<and> (\<exists>xs. calls (snd (run sd a ctx (s\<lparr>firstGet := (cp, Some e)\<rparr>) script))
          = [KVGet cp (Some e), Log Warn ''could not retrieve checkpoint configuration'',
             GetCurrentTime (currentTime s)] @ xs)
   \<and> (currentTime s = Inr t \<and> collector s = None
      \<longrightarrow> run sd a ctx (s\<lparr>firstGet := (cp, Some e)\<rparr>) script
          = readEvents sd a ctx script
              ([KVGet cp (Some e), Log Warn ''could not retrieve checkpoint configuration'',
                GetCurrentTime (Inr t)]
               @ map (\<lambda>(l, m). Log l m) (snd (getBeginFromCheckpoint t cp (MaxAge (CpConfig a))))
               @ [NewHistoryCollector (fst (getBeginFromCheckpoint t cp (MaxAge (CpConfig a))))
                    None]))
   \<and> fst (run sd a ctx (s\<lparr>firstGet := (cp, Some e)\<rparr>) script)
      = fst (run sd a ctx (s\<lparr>firstGet := (cp, None)\<rparr>) script)"
proof (intro conjI impI)
  assume "selectCase ctx st i = CaseTick \<and> flushDue st \<and> snd (kvGet i) = Some e"
  then show "readEvents_loop sd a ctx (i # rest) st
          = (Returned (Wrap ''retrieve current checkpoint'' e),
             st\<lparr>calls := calls st @ [KVGet (fst (kvGet i)) (Some e)]\<rparr>)"
    by (simp add: iteration_def tickCase_get_error)
next
  assume "selectCase ctx st i = CaseTick \<and> flushDue st \<and> snd (kvGet i) = None \<and> kvSave i = Some e"
  then show "readEvents_loop sd a ctx (i # rest) st
          = (Returned (Wrap ''save checkpoint'' e),
             st\<lparr>calls := calls st @ [KVGet (fst (kvGet i)) None,
                Log Debug ''creating checkpoint'', KVSave (Some e)]\<rparr>)"
    by (simp add: iteration_def tickCase_save_error)
next
  assume h: "selectCase ctx st i = CaseDefault \<and> readNext i = (events, None) \<and> events \<noteq> []
        \<and> 0 < fst (fst (sendEvents sd a (send i) events [])) \<and> kvSet i = Some e"
  then have rn: "readNext i = (events, None)" and ne: "events \<noteq> []"
    and n: "0 < fst (fst (sendEvents sd a (send i) events []))" and e: "kvSet i = Some e"
    and sel: "selectCase ctx st i = CaseDefault"
    by blast+
  have it: "iteration sd a ctx i st = pollCase sd a i st"
    using sel by (simp add: iteration_def)
  show "readEvents_loop sd a ctx (i # rest) st
          = (let sent = sendEvents sd a (send i) events
                   (calls st @ [ReadNextEvents maxEventsBatch events None, Log Debug ''got events'']);
                 le = events ! (fst (fst sent) - 1);
                 cp = \<lparr>VCenter = Source a, LastEventKey = Key le,
                       LastEventType = Type (getEventDetails le),
                       LastEventKeyTimestamp = CreatedTime le, CreatedTimestamp = timeNow i\<rparr>
             in (Returned (Wrap ''set checkpoint'' e),
                 st\<lparr>lastEvent := Some le,
                    calls := snd sent
                      @ (if snd (fst sent) \<noteq> None then [Log Error ''send events''] else [])
                      @ [KVSet cp (Some e)]\<rparr>))"
    using it pollCase_set_error_full [OF rn ne n e, of st] by (simp add: Let_def)
next
  show "\<exists>xs. calls (snd (run sd a ctx (s\<lparr>firstGet := (cp, Some e)\<rparr>) script))
          = [KVGet cp (Some e), Log Warn ''could not retrieve checkpoint configuration'',
             GetCurrentTime (currentTime s)] @ xs"
    by (rule run_failed_get_calls)
next
  assume "currentTime s = Inr t \<and> collector s = None"
  then show "run sd a ctx (s\<lparr>firstGet := (cp, Some e)\<rparr>) script
          = readEvents sd a ctx script
              ([KVGet cp (Some e), Log Warn ''could not retrieve checkpoint configuration'',
                GetCurrentTime (Inr t)]
               @ map (\<lambda>(l, m). Log l m) (snd (getBeginFromCheckpoint t cp (MaxAge (CpConfig a))))
               @ [NewHistoryCollector (fst (getBeginFromCheckpoint t cp (MaxAge (CpConfig a))))
                    None])"
    by (intro run_failed_get_loop) simp_all
next
  show "fst (run sd a ctx (s\<lparr>firstGet := (cp, Some e)\<rparr>) script)
      = fst (run sd a ctx (s\<lparr>firstGet := (cp, None)\<rparr>) script)"
    by (rule run_first_get)
qed

text \<open>
  A store that fails in \<open>Get\<close> and one that fails in \<open>Save\<close>, at a firing of the ticker
  after a delivered batch; a store that fails in \<open>Set\<close> after a delivered batch; a store
  whose first \<open>Get\<close> fails and leaves a checkpoint 3599.8 seconds old.
\<close>

theorem store_failure_witness:
  "fst (readEvents_loop sdk0 adapter0 ctx0
      [tick\<lparr>kvGet := (zero_checkpoint, Some (Err ''unavailable''))\<rparr>, idle]
      (snd (iteration sdk0 adapter0 ctx0 (poll (map event0 [10, 11, 12]) (\<lambda>i ev. None))
         (state_init []))))
     = Returned (Wrap ''retrieve current checkpoint'' (Err ''unavailable''))
   \<and> fst (readEvents_loop sdk0 adapter0 ctx0
      [tick\<lparr>kvSave := Some (Err ''unavailable'')\<rparr>, idle]
      (snd (iteration sdk0 adapter0 ctx0 (poll (map event0 [10, 11, 12]) (\<lambda>i ev. None))
         (state_init []))))
     = Returned (Wrap ''save checkpoint'' (Err ''unavailable''))
   \<and> fst (readEvents_loop sdk0 adapter0 ctx0
      [(poll (map event0 [10, 11, 12]) (\<lambda>i ev. None))\<lparr>kvSet := Some (Err ''unavailable'')\<rparr>, idle]
      (state_init []))
     = Returned (Wrap ''set checkpoint'' (Err ''unavailable''))
   \<and> last (calls (snd (readEvents_loop sdk0 adapter0 ctx0
      [(poll (map event0 [10, 11, 12]) (\<lambda>i ev. None))\<lparr>kvSet := Some (Err ''unavailable'')\<rparr>, idle]
      (state_init []))))
     = KVSet \<lparr>VCenter = ''vcenter.local'', LastEventKey = 12,
               LastEventType = ''VmPoweredOnEvent'',
               LastEventKeyTimestamp = 63800000012000000000,
               CreatedTimestamp = 63800000100000000000\<rparr> (Some (Err ''unavailable''))
   \<and> calls (snd (run sdk0 adapter0 ctx0
      (startup0\<lparr>firstGet := (zero_checkpoint\<lparr>LastEventKeyTimestamp := 63799996400700000000\<rparr>,
         Some (Err ''unavailable''))\<rparr>) []))
     = [KVGet (zero_checkpoint\<lparr>LastEventKeyTimestamp := 63799996400700000000\<rparr>)
          (Some (Err ''unavailable'')),
        Log Warn ''could not retrieve checkpoint configuration'',
        GetCurrentTime (Inr 63800000000500000000),
        Log Info ''found existing checkpoint'',
        Log Info ''setting begin of event stream'',
        NewHistoryCollector 63799996400700000000 None]"
proof -
  let ?b = "map event0 [10, 11, 12]"
  let ?st = "snd (iteration sdk0 adapter0 ctx0 (poll ?b (\<lambda>i ev. None)) (state_init []))"
  let ?e = "Err ''unavailable''"
  let ?i1 = "tick\<lparr>kvGet := (zero_checkpoint, Some ?e)\<rparr>"
  let ?i2 = "tick\<lparr>kvSave := Some ?e\<rparr>"
  let ?i3 = "(poll ?b (\<lambda>i ev. None))\<lparr>kvSet := Some ?e\<rparr>"
  let ?cp = "zero_checkpoint\<lparr>LastEventKeyTimestamp := 63799996400700000000\<rparr>"
  have d: "flushDue ?st"
    by (simp add: model_defs flushDue_def event0_def)
  have h1: "selectCase ctx0 ?st ?i1 = CaseTick \<and> flushDue ?st \<and> snd (kvGet ?i1) = Some ?e"
    using d by (simp add: selectCase_def Done_def ctx0_def tick_def idle_def)
  have h2: "selectCase ctx0 ?st ?i2 = CaseTick \<and> flushDue ?st \<and> snd (kvGet ?i2) = None
      \<and> kvSave ?i2 = Some ?e"
    using d by (simp add: selectCase_def Done_def ctx0_def tick_def idle_def)
  have h3: "selectCase ctx0 (state_init []) ?i3 = CaseDefault \<and> readNext ?i3 = (?b, None)
      \<and> ?b \<noteq> [] \<and> 0 < fst (fst (sendEvents sdk0 adapter0 (send ?i3) ?b []))
      \<and> kvSet ?i3 = Some ?e"
    by (simp add: selectCase_def Done_def ctx0_def state_init_def poll_def idle_def sendEvents_def
        sdk0_def encode0_def adapter0_def Let_def)
  have h4: "currentTime startup0 = Inr 63800000000500000000 \<and> collector startup0 = None"
    by (simp add: startup0_def)
  from store_failure [of ctx0 ?st ?i1 ?e sdk0 adapter0 "[idle]"] h1
  have r1: "fst (readEvents_loop sdk0 adapter0 ctx0 [?i1, idle] ?st)
      = Returned (Wrap ''retrieve current checkpoint'' ?e)"
    by simp
  from store_failure [of ctx0 ?st ?i2 ?e sdk0 adapter0 "[idle]"] h2
  have r2: "fst (readEvents_loop sdk0 adapter0 ctx0 [?i2, idle] ?st)
      = Returned (Wrap ''save checkpoint'' ?e)"
    by simp
  from store_failure [of ctx0 "state_init []" ?i3 ?e sdk0 adapter0 "[idle]" ?b] h3
  have "readEvents_loop sdk0 adapter0 ctx0 [?i3, idle] (state_init [])
          = (let sent = sendEvents sdk0 adapter0 (send ?i3) ?b
                   (calls (state_init [])
                     @ [ReadNextEvents maxEventsBatch ?b None, Log Debug ''got events'']);
                 le = ?b ! (fst (fst sent) - 1);
                 cp = \<lparr>VCenter = Source adapter0, LastEventKey = Key le,
                       LastEventType = Type (getEventDetails le),
                       LastEventKeyTimestamp = CreatedTime le, CreatedTimestamp = timeNow ?i3\<rparr>
             in (Returned (Wrap ''set checkpoint'' ?e),
                 (state_init [])\<lparr>lastEvent := Some le,
                    calls := snd sent
                      @ (if snd (fst sent) \<noteq> None then [Log Error ''send events''] else [])
                      @ [KVSet cp (Some ?e)]\<rparr>))"
    by blast
  then have r3: "fst (readEvents_loop sdk0 adapter0 ctx0 [?i3, idle] (state_init []))
      = Returned (Wrap ''set checkpoint'' ?e)"
    and r4: "last (calls (snd (readEvents_loop sdk0 adapter0 ctx0 [?i3, idle] (state_init []))))
      = KVSet \<lparr>VCenter = ''vcenter.local'', LastEventKey = 12,
               LastEventType = ''VmPoweredOnEvent'',
               LastEventKeyTimestamp = 63800000012000000000,
               CreatedTimestamp = 63800000100000000000\<rparr> (Some ?e)"
    by (simp_all add: Let_def sendEvents_def sdk0_def encode0_def adapter0_def poll_def idle_def
        event0_def getEventDetails_def)
  from store_failure [where sd = sdk0 and a = adapter0 and ctx = ctx0 and s = startup0
      and cp = ?cp and e = ?e and script = "[]" and t = 63800000000500000000] h4
  have "run sdk0 adapter0 ctx0 (startup0\<lparr>firstGet := (?cp, Some ?e)\<rparr>) []
          = readEvents sdk0 adapter0 ctx0 []
              ([KVGet ?cp (Some ?e), Log Warn ''could not retrieve checkpoint configuration'',
                GetCurrentTime (Inr 63800000000500000000)]
               @ map (\<lambda>(l, m). Log l m)
                   (snd (getBeginFromCheckpoint 63800000000500000000 ?cp (MaxAge (CpConfig adapter0))))
               @ [NewHistoryCollector
                    (fst (getBeginFromCheckpoint 63800000000500000000 ?cp (MaxAge (CpConfig adapter0))))
                    None])"
    by blast
  then have r5: "calls (snd (run sdk0 adapter0 ctx0 (startup0\<lparr>firstGet := (?cp, Some ?e)\<rparr>) []))
     = [KVGet ?cp (Some ?e),
        Log Warn ''could not retrieve checkpoint configuration'',
        GetCurrentTime (Inr 63800000000500000000),
        Log Info ''found existing checkpoint'',
        Log Info ''setting begin of event stream'',
        NewHistoryCollector 63799996400700000000 None]"
    by (simp add: readEvents_def state_init_def adapter0_def Second_def
        getBeginFromCheckpoint_def IsZero_def Add_def Unix_def zero_checkpoint_def Let_def)
  from r1 r2 r3 r4 r5 show ?thesis by blast
qed

section \<open>Cancellation\<close>

text \<open>
  C8 (cancellable backoff wait), as the claim states it, fails: the run below is
  cancelled one nanosecond after the loop began, during the first backoff wait; the loop
  sleeps the whole second and returns the cancellation at the next \<open>select\<close>.
\<close>

theorem cancellation_counterexample:
  "Done (cancelled_at 1) 1
   \<and> fst (readEvents sdk0 adapter0 (cancelled_at 1) [idle, idle] []) = Returned Canceled
   \<and> clock (snd (readEvents sdk0 adapter0 (cancelled_at 1) [idle, idle] [])) = 1000000000
   \<and> calls (snd (readEvents sdk0 adapter0 (cancelled_at 1) [idle, idle] []))
       = [ReadNextEvents 100 [] None,
          Log Debug ''backing off retrieving events: no new events received'',
          Sleep 1000000000]"
  by (simp add: cancelled_at_def model_defs)


text \<open>
  C8, amended. The loop checks the cancellation in the \<open>select\<close> at the top of every
  iteration: when the context is done there and the \<open>select\<close> does not choose a pending
  tick, \<open>readEvents\<close> returns \<open>ctx.Err()\<close> at once, without any call. The backoff wait
  of an empty poll is \<open>time.Sleep\<close> for the whole duration: a cancellation raised during
  the wait does not end it, the iteration goes on to its end, and the loop returns
  \<open>ctx.Err()\<close> at the \<open>select\<close> of the next iteration, once the wait is over.
\<close>

theorem cancellation:
  "(Done ctx (clock st) \<and> \<not> (tickReady i \<and> pickTick i)
      \<longrightarrow> readEvents_loop sd a ctx (i # rest) st = (Returned (ctxErr ctx), st))
   \<and> (\<not> tickReady i \<and> readNext i = ([], None) \<and> cancelAt ctx = Some t
        \<and> clock st < t \<and> t < clock st + sint (fst (Duration (bOff st)))
        \<and> \<not> (tickReady j \<and> pickTick j)
      \<longrightarrow> fst (iteration sd a ctx i st) = Continue
        \<and> calls (snd (iteration sd a ctx i st))
            = calls st @ [ReadNextEvents maxEventsBatch [] None,
                Log Debug ''backing off retrieving events: no new events received'',
                Sleep (fst (Duration (bOff st)))]
        \<and> clock (snd (iteration sd a ctx i st)) = clock st + sint (fst (Duration (bOff st)))
        \<and> fst (readEvents_loop sd a ctx (i # j # rest) st) = Returned (ctxErr ctx)
        \<and> clock (snd (readEvents_loop sd a ctx (i # j # rest) st))
            = clock st + sint (fst (Duration (bOff st))))"
proof (intro conjI impI)
  assume "Done ctx (clock st) \<and> \<not> (tickReady i \<and> pickTick i)"
  then have "selectCase ctx st i = CaseDone" by (auto simp add: selectCase_def)
  then show "readEvents_loop sd a ctx (i # rest) st = (Returned (ctxErr ctx), st)"
    by (simp add: iteration_def)
next
  assume h: "\<not> tickReady i \<and> readNext i = ([], None) \<and> cancelAt ctx = Some t
        \<and> clock st < t \<and> t < clock st + sint (fst (Duration (bOff st)))
        \<and> \<not> (tickReady j \<and> pickTick j)"
  let ?d = "fst (Duration (bOff st))"
  let ?st1 = "st\<lparr>bOff := snd (Duration (bOff st)),
        clock := clock st + max 0 (sint ?d),
        calls := calls st @ [ReadNextEvents maxEventsBatch [] None,
          Log Debug ''backing off retrieving events: no new events received'',
          Sleep ?d]\<rparr>"
  from h have rn: "readNext i = ([], None)" by simp
  from h have pos: "max 0 (sint ?d) = sint ?d" by simp
  from h have "selectCase ctx st i = CaseDefault"
    by (simp add: selectCase_def Done_def)
  then have it: "iteration sd a ctx i st = (Continue, ?st1)"
    using pollCase_empty [OF rn, of sd a st] by (simp add: iteration_def)
  from h have "Done ctx (clock ?st1)" by (simp add: Done_def pos)
  with h have "selectCase ctx ?st1 j = CaseDone" by (auto simp add: selectCase_def)
  then have it2: "iteration sd a ctx j ?st1 = (Return (ctxErr ctx), ?st1)"
    by (simp add: iteration_def)
  from it show "fst (iteration sd a ctx i st) = Continue" by simp
  from it show "calls (snd (iteration sd a ctx i st))
            = calls st @ [ReadNextEvents maxEventsBatch [] None,
                Log Debug ''backing off retrieving events: no new events received'',
                Sleep (fst (Duration (bOff st)))]" by simp
  from it pos show "clock (snd (iteration sd a ctx i st)) = clock st + sint ?d" by simp
  from it it2 show "fst (readEvents_loop sd a ctx (i # j # rest) st) = Returned (ctxErr ctx)"
    by simp
  from it it2 pos show "clock (snd (readEvents_loop sd a ctx (i # j # rest) st))
            = clock st + sint ?d" by simp
qed


text \<open>
  A run cancelled 3.5 seconds after the loop began, during the third backoff wait, which
  lasts from 3 to 7 seconds.
\<close>

theorem cancellation_witness:
  "clock (snd (readEvents sdk0 adapter0 (cancelled_at 3500000000) [idle, idle] [])) = 3000000000
   \<and> fst (readEvents_loop sdk0 adapter0 (cancelled_at 3500000000) [idle, idle]
        (snd (readEvents sdk0 adapter0 (cancelled_at 3500000000) [idle, idle] [])))
      = Returned Canceled
   \<and> clock (snd (readEvents_loop sdk0 adapter0 (cancelled_at 3500000000) [idle, idle]
        (snd (readEvents sdk0 adapter0 (cancelled_at 3500000000) [idle, idle] []))))
      = 7000000000"
proof -
  let ?ctx = "cancelled_at 3500000000"
  let ?st = "snd (readEvents sdk0 adapter0 ?ctx [idle, idle] [])"
  have c: "clock ?st = 3000000000" "sint (fst (Duration (bOff ?st))) = 4000000000"
    by (simp_all add: cancelled_at_def model_defs)
  have h: "\<not> tickReady idle \<and> readNext idle = ([], None) \<and> cancelAt ?ctx = Some 3500000000
        \<and> clock ?st < 3500000000 \<and> 3500000000 < clock ?st + sint (fst (Duration (bOff ?st)))
        \<and> \<not> (tickReady idle \<and> pickTick idle)"
    unfolding c by (simp add: idle_def cancelled_at_def)
  from cancellation [of ?ctx ?st idle sdk0 adapter0 "[]" 3500000000 idle] h
  have "fst (readEvents_loop sdk0 adapter0 ?ctx [idle, idle] ?st) = Returned (ctxErr ?ctx)"
    "clock (snd (readEvents_loop sdk0 adapter0 ?ctx [idle, idle] ?st))
       = clock ?st + sint (fst (Duration (bOff ?st)))"
    by blast+
  then show ?thesis unfolding c by (simp add: cancelled_at_def)
qed

end
